theory Spec2Isabelle
  imports Main
begin

section \<open>Text primitives\<close>

text \<open>
  The parser works on Python strings. A text is modelled as a \<open>string\<close>, one \<open>char\<close> per
  code point, so the model covers the code points below 256. The two character classes the
  source relies on are \<open>str.isalnum\<close> (also the class behind the pattern \<open>\w\<close>, which adds
  the underscore) and \<open>str.isspace\<close> (the class behind \<open>str.strip\<close> and the pattern \<open>\s\<close>);
  both are written out for that range.
\<close>

definition isalnum :: "char \<Rightarrow> bool" where
  "isalnum c = (let n = (of_char c :: nat) in
     (48 \<le> n \<and> n \<le> 57) \<or> (65 \<le> n \<and> n \<le> 90) \<or> (97 \<le> n \<and> n \<le> 122) \<or>
     n = 170 \<or> n = 178 \<or> n = 179 \<or> n = 181 \<or> n = 185 \<or> n = 186 \<or>
     (188 \<le> n \<and> n \<le> 190) \<or> (192 \<le> n \<and> n \<le> 214) \<or> (216 \<le> n \<and> n \<le> 246) \<or>
     (248 \<le> n \<and> n \<le> 255))"

definition isspace :: "char \<Rightarrow> bool" where
  "isspace c = (let n = (of_char c :: nat) in
     (9 \<le> n \<and> n \<le> 13) \<or> (28 \<le> n \<and> n \<le> 32) \<or> n = 133 \<or> n = 160)"

definition is_word :: "char \<Rightarrow> bool" where
  "is_word c = (isalnum c \<or> c = CHR ''_'')"

definition newline :: char where
  "newline = CHR 0x0A"

text \<open>\<open>s.strip()\<close>: leading and trailing white space removed.\<close>

definition strip :: "string \<Rightarrow> string" where
  "strip s = rev (dropWhile isspace (rev (dropWhile isspace s)))"

text \<open>\<open>s.startswith(p)\<close>.\<close>

definition startswith :: "string \<Rightarrow> string \<Rightarrow> bool" where
  "startswith s p = (take (length p) s = p)"

text \<open>\<open>'\n'.join(xs)\<close>.\<close>

fun join_lines :: "string list \<Rightarrow> string" where
  "join_lines [] = []"
| "join_lines [x] = x"
| "join_lines (x # y # ys) = x @ newline # join_lines (y # ys)"

text \<open>The slice \<open>xs[a:b]\<close> for indices that are not negative.\<close>

definition slice :: "'a list \<Rightarrow> nat \<Rightarrow> nat \<Rightarrow> 'a list" where
  "slice xs a b = take (b - a) (drop a xs)"


section \<open>The graph model\<close>

datatype node_type = Statement | Condition | Start | End | LoopCondition | Merge

record node =
  nid :: nat
  content :: string
  ntype :: node_type

text \<open>An edge's condition is \<open>True\<close>, \<open>False\<close> or \<open>None\<close> (unconditional).\<close>

record edge =
  source :: nat
  target :: nat
  condition :: "bool option"

record cfg =
  nodes :: "node list"
  edges :: "edge list"
  next_id :: nat

definition new_cfg :: cfg where
  "new_cfg = \<lparr>nodes = [], edges = [], next_id = 0\<rparr>"

text \<open>\<open>add_node\<close> appends a node carrying the next id and returns it with the new graph.\<close>

definition add_node :: "cfg \<Rightarrow> string \<Rightarrow> node_type \<Rightarrow> cfg \<times> node" where
  "add_node g c t =
     (let n = \<lparr>nid = next_id g, content = c, ntype = t\<rparr>
      in (g\<lparr>nodes := nodes g @ [n], next_id := next_id g + 1\<rparr>, n))"

text \<open>
  \<open>add_edge\<close> scans the stored edges for the first one with the requested source and
  target. If there is one, it is given the requested condition when its own is \<open>None\<close>
  and the requested one is not, and nothing is appended; otherwise a new edge goes to the
  end. The edge object the source returns is used by no caller, so the model returns
  the graph only.
\<close>

fun add_edge_list :: "edge list \<Rightarrow> nat \<Rightarrow> nat \<Rightarrow> bool option \<Rightarrow> edge list" where
  "add_edge_list [] s t c = [\<lparr>source = s, target = t, condition = c\<rparr>]"
| "add_edge_list (e # es) s t c =
     (if source e = s \<and> target e = t
      then (if condition e = None \<and> c \<noteq> None then e\<lparr>condition := c\<rparr> # es else e # es)
      else e # add_edge_list es s t c)"

definition add_edge :: "cfg \<Rightarrow> node \<Rightarrow> node \<Rightarrow> bool option \<Rightarrow> cfg" where
  "add_edge g source_node target_node c =
     g\<lparr>edges := add_edge_list (edges g) (nid source_node) (nid target_node) c\<rparr>"

definition edge_key :: "edge \<Rightarrow> nat \<times> nat" where
  "edge_key e = (source e, target e)"

text \<open>A sequence of \<open>add_edge\<close> calls on a freshly constructed graph.\<close>

definition add_edges :: "(node \<times> node \<times> bool option) list \<Rightarrow> cfg" where
  "add_edges calls = foldl (\<lambda>g (a, b, c). add_edge g a b c) new_cfg calls"


section \<open>Regular expressions\<close>

text \<open>
  The source uses Python's \<open>re\<close> with a handful of patterns. Every quantifier in them ranges
  over a class of single characters, so a pattern is a list of items. The matcher backtracks
  in the order of the regular expression engine: a greedy star takes a character first and
  gives it back when the rest fails, a lazy star tries the rest first. One capture group
  may be open at a time (no pattern of the source nests groups); the text of a closed group
  is appended to the list of groups. A match returns the groups and the unread input.
\<close>

datatype rx =
    RChar char
  | RStar "char \<Rightarrow> bool"
  | RLazy "char \<Rightarrow> bool"
  | RPlus "char \<Rightarrow> bool"
  | ROpen
  | RClose

fun grow :: "string option \<Rightarrow> char \<Rightarrow> string option" where
  "grow None c = None"
| "grow (Some a) c = Some (a @ [c])"

fun close_group :: "string option \<Rightarrow> string list \<Rightarrow> string list" where
  "close_group None gs = gs"
| "close_group (Some a) gs = gs @ [a]"

fun rx_match :: "rx list \<Rightarrow> string \<Rightarrow> string option \<Rightarrow> string list \<Rightarrow> (string list \<times> string) option" where
  "rx_match [] s acc gs = Some (gs, s)"
| "rx_match (RChar c # p) [] acc gs = None"
| "rx_match (RChar c # p) (x # xs) acc gs =
     (if x = c then rx_match p xs (grow acc x) gs else None)"
| "rx_match (RStar f # p) [] acc gs = rx_match p [] acc gs"
| "rx_match (RStar f # p) (x # xs) acc gs =
     (if f x
      then (case rx_match (RStar f # p) xs (grow acc x) gs of
              Some r \<Rightarrow> Some r
            | None \<Rightarrow> rx_match p (x # xs) acc gs)
      else rx_match p (x # xs) acc gs)"
| "rx_match (RLazy f # p) [] acc gs = rx_match p [] acc gs"
| "rx_match (RLazy f # p) (x # xs) acc gs =
     (case rx_match p (x # xs) acc gs of
        Some r \<Rightarrow> Some r
      | None \<Rightarrow> (if f x then rx_match (RLazy f # p) xs (grow acc x) gs else None))"
| "rx_match (RPlus f # p) [] acc gs = None"
| "rx_match (RPlus f # p) (x # xs) acc gs =
     (if f x then rx_match (RStar f # p) xs (grow acc x) gs else None)"
| "rx_match (ROpen # p) s acc gs = rx_match p s (Some []) gs"
| "rx_match (RClose # p) s acc gs = rx_match p s None (close_group acc gs)"

text \<open>\<open>re.search\<close>: the match at the leftmost position that has one.\<close>

fun rx_search :: "rx list \<Rightarrow> string \<Rightarrow> (string list \<times> string) option" where
  "rx_search p [] = rx_match p [] None []"
| "rx_search p (x # xs) =
     (case rx_match p (x # xs) None [] of
        Some r \<Rightarrow> Some r
      | None \<Rightarrow> rx_search p xs)"

text \<open>
  \<open>re.sub(p, '', s)\<close> for a pattern that matches no empty text: every match, leftmost
  first, is cut out.
\<close>

function rx_remove :: "rx list \<Rightarrow> string \<Rightarrow> string" where
  "rx_remove p [] = []"
| "rx_remove p (x # xs) =
     (case rx_match p (x # xs) None [] of
        Some (gs, rest) \<Rightarrow>
          (if length rest < length (x # xs) then rx_remove p rest else x # rx_remove p xs)
      | None \<Rightarrow> x # rx_remove p xs)"
  by pat_completeness auto
termination
  by (relation "measure (\<lambda>(p, s). length s)") auto

definition rx_lit :: "string \<Rightarrow> rx list" where
  "rx_lit s = map RChar s"

text \<open>The dot matches every character but the line feed; with \<open>re.DOTALL\<close> every character.\<close>

definition dot :: "char \<Rightarrow> bool" where
  "dot c = (c \<noteq> newline)"

definition dot_all :: "char \<Rightarrow> bool" where
  "dot_all c = True"

definition not_rparen :: "char \<Rightarrow> bool" where
  "not_rparen c = (c \<noteq> CHR '')'')"

text \<open>\<open>//.*\<close>\<close>

definition line_comment_rx :: "rx list" where
  "line_comment_rx = rx_lit ''//'' @ [RStar dot]"

text \<open>\<open>/\*.*?\*/\<close> with \<open>re.DOTALL\<close>\<close>

definition block_comment_rx :: "rx list" where
  "block_comment_rx = rx_lit ''/*'' @ [RLazy dot_all] @ rx_lit ''*/''"

text \<open>\<open>(\w+\s+\w+\s*\([^)]*\)\s*{)\<close>\<close>

definition function_rx :: "rx list" where
  "function_rx =
     [ROpen, RPlus is_word, RPlus isspace, RPlus is_word, RStar isspace, RChar (CHR ''(''),
      RStar not_rparen, RChar (CHR '')''), RStar isspace, RChar (CHR ''{''), RClose]"

text \<open>\<open>if\s*\((.*)\)\<close>\<close>

definition if_rx :: "rx list" where
  "if_rx = rx_lit ''if'' @ [RStar isspace, RChar (CHR ''(''), ROpen, RStar dot, RClose,
     RChar (CHR '')'')]"

text \<open>\<open>for\s*\((.*?);(.*?);(.*?)\)\<close>\<close>

definition for_rx :: "rx list" where
  "for_rx = rx_lit ''for'' @ [RStar isspace, RChar (CHR ''(''),
     ROpen, RLazy dot, RClose, RChar (CHR '';''),
     ROpen, RLazy dot, RClose, RChar (CHR '';''),
     ROpen, RLazy dot, RClose, RChar (CHR '')'')]"

text \<open>\<open>while\s*\((.*)\)\<close>\<close>

definition while_rx :: "rx list" where
  "while_rx = rx_lit ''while'' @ [RStar isspace, RChar (CHR ''(''), ROpen, RStar dot, RClose,
     RChar (CHR '')'')]"

text \<open>\<open>while\s*\((.*)\);\<close>\<close>

definition do_while_rx :: "rx list" where
  "do_while_rx = rx_lit ''while'' @ [RStar isspace, RChar (CHR ''(''), ROpen, RStar dot, RClose,
     RChar (CHR '')''), RChar (CHR '';'')]"


section \<open>The statement tokenizer\<close>

text \<open>
  \<open>split_into_statements\<close> walks the text with an index \<open>i\<close>, the text accumulated since
  the last token (\<open>current\<close>) and the tokens so far (\<open>lines\<close>). The two inner loops of a
  header branch are \<open>scan_to_paren\<close> (to the first opening parenthesis) and
  \<open>balance_parens\<close> (to the matching closing one); both take the text from \<open>j\<close> on and
  return the final \<open>j\<close>.
\<close>

fun scan_to_paren :: "string \<Rightarrow> nat \<Rightarrow> nat" where
  "scan_to_paren [] j = j"
| "scan_to_paren (c # cs) j = (if c \<noteq> CHR ''('' then scan_to_paren cs (j + 1) else j)"

fun balance_parens :: "string \<Rightarrow> nat \<Rightarrow> nat \<Rightarrow> nat" where
  "balance_parens [] paren_count j = j"
| "balance_parens (c # cs) paren_count j =
     (if paren_count > 0
      then balance_parens cs
             (if c = CHR ''('' then paren_count + 1
              else if c = CHR '')'' then paren_count - 1 else paren_count) (j + 1)
      else j)"

text \<open>The keyword test: the keyword stands at \<open>i\<close>, and \<open>i\<close> is 0 or follows a character
  that is not alphanumeric.\<close>

definition at_keyword :: "string \<Rightarrow> nat \<Rightarrow> string \<Rightarrow> bool" where
  "at_keyword code_block i kw =
     (slice code_block i (i + length kw) = kw \<and> (i = 0 \<or> \<not> isalnum (code_block ! (i - 1))))"

definition flush_current :: "string list \<Rightarrow> string \<Rightarrow> string list" where
  "flush_current lines current = (if strip current \<noteq> [] then lines @ [strip current] else lines)"

text \<open>
  The branch of \<open>if\<close>, \<open>for\<close> and \<open>while\<close> (the source repeats it for the three keywords,
  of length \<open>n\<close>). When no opening parenthesis follows, the branch ends without moving
  \<open>i\<close> and without resetting \<open>current\<close>: the next iteration is in the same place.
\<close>

definition header_step :: "string \<Rightarrow> nat \<Rightarrow> nat \<Rightarrow> string \<Rightarrow> string list \<Rightarrow> nat \<times> string \<times> string list" where
  "header_step code_block i n current lines =
     (let lines1 = flush_current lines current;
          j = scan_to_paren (drop (i + n) code_block) (i + n)
      in if j < length code_block
         then (let j2 = balance_parens (drop (j + 1) code_block) 1 (j + 1)
               in (j2, [], lines1 @ [strip (slice code_block i j2)]))
         else (i, current, lines1))"

text \<open>One iteration of the main loop, for \<open>i < len(code_block)\<close>.\<close>

definition split_step :: "string \<Rightarrow> nat \<times> string \<times> string list \<Rightarrow> nat \<times> string \<times> string list" where
  "split_step code_block st =
     (case st of (i, current, lines) \<Rightarrow>
        if at_keyword code_block i ''if'' then header_step code_block i 2 current lines
        else if at_keyword code_block i ''for'' then header_step code_block i 3 current lines
        else if at_keyword code_block i ''while'' then header_step code_block i 5 current lines
        else if at_keyword code_block i ''do''
          then (i + 2, [], flush_current lines current @ [''do''])
        else if at_keyword code_block i ''else''
          then (i + 4, [], flush_current lines current @ [''else''])
        else if code_block ! i = CHR ''{'' \<or> code_block ! i = CHR ''}''
          then (i + 1, [], flush_current lines current @ [[code_block ! i]])
        else if code_block ! i = CHR '';''
          then (i + 1, [], lines @ [strip (current @ '';'')])
        else (i + 1, current @ [code_block ! i], lines))"

text \<open>
  The main loop may run forever (a keyword that no parenthesis follows), so it is a partial
  function: \<open>None\<close> is the run that does not return.
\<close>

partial_function (option) split_loop :: "string \<Rightarrow> nat \<times> string \<times> string list \<Rightarrow> string list option" where
  "split_loop code_block st =
     (if fst st < length code_block
      then split_loop code_block (split_step code_block st)
      else Some (flush_current (snd (snd st)) (fst (snd st))))"

declare split_loop.simps [code]

definition split_into_statements :: "string \<Rightarrow> string list option" where
  "split_into_statements code_block = split_loop code_block (0, [], [])"


section \<open>Clause extractors\<close>

text \<open>
  The brace matching loop shared by the extractors: from index \<open>i\<close>, with the tokens from
  \<open>i\<close> on, it runs while tokens remain and \<open>brace_count\<close> is positive, and returns the
  final \<open>i\<close>.
\<close>

fun find_close :: "string list \<Rightarrow> nat \<Rightarrow> nat \<Rightarrow> nat" where
  "find_close [] brace_count i = i"
| "find_close (l # ls) brace_count i =
     (if brace_count > 0
      then find_close ls
             (if strip l = ''{'' then brace_count + 1
              else if strip l = ''}'' then brace_count - 1 else brace_count) (i + 1)
      else i)"

text \<open>
  A body that starts at token \<open>i\<close>: the tokens between a brace and its match, joined by
  line feeds, or else the single token at \<open>i\<close>, or nothing when no token is left. The
  source writes this out once for the branch of an \<open>if\<close>, once for its \<open>else\<close>, and once
  for each loop form.
\<close>

definition extract_block :: "string list \<Rightarrow> nat \<Rightarrow> string \<times> nat" where
  "extract_block lines i =
     (if i < length lines \<and> strip (lines ! i) = ''{''
      then (let body_start = i + 1;
                i2 = find_close (drop (i + 1) lines) 1 (i + 1);
                body_end = i2 - 1
            in (join_lines (slice lines body_start body_end), i2))
      else if i < length lines then (lines ! i, i + 1)
      else ([], i))"

definition extract_if_else_blocks :: "string list \<Rightarrow> nat \<Rightarrow> string \<times> string \<times> nat" where
  "extract_if_else_blocks lines start_idx =
     (let (if_block, i) = extract_block lines (start_idx + 1)
      in if i < length lines \<and> strip (lines ! i) = ''else''
         then (if i + 1 < length lines \<and> startswith (strip (lines ! (i + 1))) ''if''
               then (if_block, lines ! (i + 1), i + 2)
               else (let (else_block, i2) = extract_block lines (i + 1)
                     in (if_block, else_block, i2)))
         else (if_block, [], i))"

text \<open>The second component of the source's result is always \<open>None\<close>; it is left out.\<close>

definition extract_loop_body :: "string list \<Rightarrow> nat \<Rightarrow> string \<times> nat" where
  "extract_loop_body lines start_idx = extract_block lines (start_idx + 1)"

definition do_while_match :: "string \<Rightarrow> string option" where
  "do_while_match line =
     (case rx_search do_while_rx line of Some ([c], rest) \<Rightarrow> Some c | _ \<Rightarrow> None)"

definition extract_do_while_body_and_condition :: "string list \<Rightarrow> nat \<Rightarrow> string \<times> string \<times> nat" where
  "extract_do_while_body_and_condition lines start_idx =
     (let (loop_body, i) = extract_block lines (start_idx + 1)
      in if i < length lines \<and> startswith (strip (lines ! i)) ''while''
         then (loop_body,
               (case do_while_match (lines ! i) of Some c \<Rightarrow> strip c | None \<Rightarrow> []),
               i + 1)
         else (loop_body, [], i))"


section \<open>The recursive builder\<close>

text \<open>
  \<open>process_code_block\<close> keeps, across the iterations of its loop, the graph, the current
  node, the token index \<open>i\<close>, the statement buffer and the loop stack. The stack is created
  empty by every invocation; a recursive call receives the graph, an entry node and the text
  of a body, and nothing else.
\<close>

record loop_context =
  condition_node :: node
  merge_node :: node

record block_state =
  graph :: cfg
  current_node :: node
  idx :: nat
  statement_buffer :: "string list"
  loop_stack :: "loop_context list"

type_synonym builder = "cfg \<Rightarrow> node \<Rightarrow> string \<Rightarrow> (cfg \<times> node) option"

text \<open>The pending statements become one statement node behind the current node.\<close>

definition flush_buffer :: "block_state \<Rightarrow> block_state" where
  "flush_buffer st =
     (if statement_buffer st \<noteq> []
      then (let (g1, stmt_node) = add_node (graph st) (join_lines (statement_buffer st)) Statement
            in st\<lparr>graph := add_edge g1 (current_node st) stmt_node None,
                  current_node := stmt_node,
                  statement_buffer := []\<rparr>)
      else st)"

definition if_match :: "string \<Rightarrow> string option" where
  "if_match line =
     (case rx_search if_rx line of Some ([c], rest) \<Rightarrow> Some c | _ \<Rightarrow> None)"

definition for_match :: "string \<Rightarrow> (string \<times> string \<times> string) option" where
  "for_match line =
     (case rx_search for_rx line of Some ([a, b, c], rest) \<Rightarrow> Some (a, b, c) | _ \<Rightarrow> None)"

definition while_match :: "string \<Rightarrow> string option" where
  "while_match line =
     (case rx_search while_rx line of Some ([c], rest) \<Rightarrow> Some c | _ \<Rightarrow> None)"

text \<open>
  One branch of an \<open>if\<close>: with a body, an entry node behind the condition node on an edge
  labelled \<open>label\<close>, the body built from it, and its last node joined to the merge node;
  without one, a labelled edge from the condition node to the merge node.
\<close>

definition process_branch :: "builder \<Rightarrow> cfg \<Rightarrow> node \<Rightarrow> node \<Rightarrow> string \<Rightarrow> string \<Rightarrow> bool \<Rightarrow> cfg option" where
  "process_branch rec g cond_node merge body entry_text label =
     (if body \<noteq> []
      then (let (g1, entry) = add_node g entry_text Statement;
                g2 = add_edge g1 cond_node entry (Some label)
            in case rec g2 entry body of
                 None \<Rightarrow> None
               | Some (g3, last_node) \<Rightarrow> Some (add_edge g3 last_node merge None))
      else Some (add_edge g cond_node merge (Some label)))"

definition if_step :: "builder \<Rightarrow> string list \<Rightarrow> block_state \<Rightarrow> string \<Rightarrow> block_state option" where
  "if_step rec lines st0 line =
     (let st = flush_buffer st0
      in case if_match line of
           None \<Rightarrow> Some (st\<lparr>idx := idx st + 1\<rparr>)
         | Some c \<Rightarrow>
             (let (g1, cond_node) = add_node (graph st) (strip c) Condition;
                  g2 = add_edge g1 (current_node st) cond_node None;
                  (if_body, else_body, next_idx) = extract_if_else_blocks lines (idx st);
                  (g3, merge) = add_node g2 ''After If-Else (Merge Node)'' Merge
              in case process_branch rec g3 cond_node merge if_body ''If Branch Entry'' True of
                   None \<Rightarrow> None
                 | Some g4 \<Rightarrow>
                     (case process_branch rec g4 cond_node merge else_body
                             ''Else Branch Entry'' False of
                        None \<Rightarrow> None
                      | Some g5 \<Rightarrow>
                          Some (st\<lparr>graph := g5, current_node := merge, idx := next_idx\<rparr>))))"

text \<open>The initialization clause of a \<open>for\<close>: a statement node behind the current node, when
  the clause is not empty.\<close>

definition for_init :: "cfg \<Rightarrow> node \<Rightarrow> string \<Rightarrow> cfg \<times> node" where
  "for_init g cur init_expr =
     (if init_expr \<noteq> []
      then (let (g1, init_node) = add_node g init_expr Statement
            in (add_edge g1 cur init_node None, init_node))
      else (g, cur))"

text \<open>The body of a \<open>for\<close> and its update clause, behind the condition node.\<close>

definition for_body :: "builder \<Rightarrow> cfg \<Rightarrow> node \<Rightarrow> string \<Rightarrow> string \<Rightarrow> cfg option" where
  "for_body rec g cond_node update_expr loop_body =
     (if loop_body \<noteq> []
      then (let (g1, loop_entry_node) = add_node g ''For Loop Body Entry'' Statement;
                g2 = add_edge g1 cond_node loop_entry_node (Some True)
            in case rec g2 loop_entry_node loop_body of
                 None \<Rightarrow> None
               | Some (g3, loop_last_node) \<Rightarrow>
                   (if update_expr \<noteq> []
                    then (let (g4, update_node) = add_node g3 update_expr Statement;
                              g5 = add_edge g4 loop_last_node update_node None
                          in Some (add_edge g5 update_node cond_node None))
                    else Some (add_edge g3 loop_last_node cond_node None)))
      else if update_expr \<noteq> []
      then (let (g1, update_node) = add_node g update_expr Statement;
                g2 = add_edge g1 cond_node update_node (Some True)
            in Some (add_edge g2 update_node cond_node None))
      else Some (add_edge g cond_node cond_node (Some True)))"

definition for_step :: "builder \<Rightarrow> string list \<Rightarrow> block_state \<Rightarrow> string \<Rightarrow> block_state option" where
  "for_step rec lines st0 line =
     (let st = flush_buffer st0
      in case for_match line of
           None \<Rightarrow> Some (st\<lparr>idx := idx st + 1\<rparr>)
         | Some (a, b, c) \<Rightarrow>
             (let init_expr = strip a;
                  condition_expr = (if strip b \<noteq> [] then strip b else ''true'');
                  update_expr = strip c;
                  (g1, cur) = for_init (graph st) (current_node st) init_expr;
                  (g2, cond_node) = add_node g1 condition_expr LoopCondition;
                  g3 = add_edge g2 cur cond_node None;
                  (loop_body, next_idx) = extract_loop_body lines (idx st);
                  (g4, after_loop_node) = add_node g3 ''After For Loop (Merge Node)'' Merge;
                  g5 = add_edge g4 cond_node after_loop_node (Some False);
                  stack = loop_stack st @
                    [\<lparr>condition_node = cond_node, merge_node = after_loop_node\<rparr>]
              in case for_body rec g5 cond_node update_expr loop_body of
                   None \<Rightarrow> None
                 | Some g \<Rightarrow>
                     Some (st\<lparr>graph := g, current_node := after_loop_node, idx := next_idx,
                              loop_stack := butlast stack\<rparr>)))"

text \<open>The body of a \<open>while\<close>, behind the condition node.\<close>

definition while_body :: "builder \<Rightarrow> cfg \<Rightarrow> node \<Rightarrow> string \<Rightarrow> cfg option" where
  "while_body rec g loop_condition_node loop_body =
     (if loop_body \<noteq> []
      then (let (g1, loop_entry_node) = add_node g ''While Loop Body Entry'' Statement;
                g2 = add_edge g1 loop_condition_node loop_entry_node (Some True)
            in case rec g2 loop_entry_node loop_body of
                 None \<Rightarrow> None
               | Some (g3, loop_last_node) \<Rightarrow>
                   Some (add_edge g3 loop_last_node loop_condition_node None))
      else Some (add_edge g loop_condition_node loop_condition_node (Some True)))"

definition while_step :: "builder \<Rightarrow> string list \<Rightarrow> block_state \<Rightarrow> string \<Rightarrow> block_state option" where
  "while_step rec lines st0 line =
     (let st = flush_buffer st0
      in case while_match line of
           None \<Rightarrow> Some (st\<lparr>idx := idx st + 1\<rparr>)
         | Some c \<Rightarrow>
             (let (g1, loop_condition_node) = add_node (graph st) (strip c) LoopCondition;
                  g2 = add_edge g1 (current_node st) loop_condition_node None;
                  (loop_body, next_idx) = extract_loop_body lines (idx st);
                  (g3, after_loop_node) = add_node g2 ''After Loop (Merge Node)'' Merge;
                  g4 = add_edge g3 loop_condition_node after_loop_node (Some False);
                  stack = loop_stack st @
                    [\<lparr>condition_node = loop_condition_node, merge_node = after_loop_node\<rparr>]
              in case while_body rec g4 loop_condition_node loop_body of
                   None \<Rightarrow> None
                 | Some g \<Rightarrow>
                     Some (st\<lparr>graph := g, current_node := after_loop_node, idx := next_idx,
                              loop_stack := butlast stack\<rparr>)))"

definition do_step :: "builder \<Rightarrow> string list \<Rightarrow> block_state \<Rightarrow> block_state option" where
  "do_step rec lines st0 =
     (let st = flush_buffer st0;
          (loop_body, condition, next_idx) = extract_do_while_body_and_condition lines (idx st);
          (g1, do_while_entry) = add_node (graph st) ''do'' Statement;
          g2 = add_edge g1 (current_node st) do_while_entry None
      in case (if loop_body \<noteq> [] then rec g2 do_while_entry loop_body
               else Some (g2, do_while_entry)) of
           None \<Rightarrow> None
         | Some (g3, loop_last_node) \<Rightarrow>
             (let (g4, cond_node) =
                    add_node g3 (if condition \<noteq> [] then condition else ''x < 5'') LoopCondition;
                  g5 = add_edge g4 loop_last_node cond_node None;
                  (g6, after_loop_node) = add_node g5 ''After Do-While Loop (Merge Node)'' Merge;
                  stack = loop_stack st @
                    [\<lparr>condition_node = cond_node, merge_node = after_loop_node\<rparr>];
                  g7 = add_edge g6 cond_node do_while_entry (Some True);
                  g8 = add_edge g7 cond_node after_loop_node (Some False)
              in Some (st\<lparr>graph := g8, current_node := after_loop_node, idx := next_idx,
                          loop_stack := butlast stack\<rparr>)))"

text \<open>\<open>continue;\<close> and \<open>break;\<close>: an edge to the innermost loop context when the stack has one.\<close>

definition jump_step :: "block_state \<Rightarrow> (loop_context \<Rightarrow> node) \<Rightarrow> block_state" where
  "jump_step st sel =
     (if loop_stack st \<noteq> []
      then st\<lparr>graph := add_edge (graph st) (current_node st) (sel (last (loop_stack st))) None,
              idx := idx st + 1\<rparr>
      else st\<lparr>idx := idx st + 1\<rparr>)"

text \<open>One iteration of the loop over the tokens, for \<open>i < len(lines)\<close>.\<close>

definition step :: "builder \<Rightarrow> string list \<Rightarrow> block_state \<Rightarrow> block_state option" where
  "step rec lines st =
     (let line = strip (lines ! idx st)
      in if line = [] then Some (st\<lparr>idx := idx st + 1\<rparr>)
         else if line = ''continue;'' then Some (jump_step st condition_node)
         else if line = ''break;'' then Some (jump_step st merge_node)
         else if startswith line ''if'' then if_step rec lines st line
         else if startswith line ''for'' then for_step rec lines st line
         else if startswith line ''while'' \<and> \<not> startswith line ''while(''
           then while_step rec lines st line
         else if startswith line ''do'' then do_step rec lines st
         else if \<not> (startswith line ''else'' \<or> line = ''{'' \<or> line = ''}'')
           then Some (st\<lparr>statement_buffer := statement_buffer st @ [line], idx := idx st + 1\<rparr>)
         else Some (st\<lparr>idx := idx st + 1\<rparr>))"


text \<open>
  The loop over the tokens. Every iteration moves \<open>i\<close> forward, which is the termination
  argument.
\<close>

function block_loop :: "builder \<Rightarrow> string list \<Rightarrow> block_state \<Rightarrow> block_state option" where
  "block_loop rec lines st =
     (if idx st < length lines
      then (case step rec lines st of
              None \<Rightarrow> None
            | Some st' \<Rightarrow> block_loop rec lines st')
      else Some st)"
  by pat_completeness auto
termination
proof (relation "measure (\<lambda>(rec, lines, st). length lines - idx st)")
  show "wf (measure (\<lambda>(rec, lines, st). length lines - idx st))" by simp
next
  fix rec :: builder and lines :: "string list" and st st' :: block_state
  assume lt: "idx st < length lines" and s: "step rec lines st = Some st'"
  have fc: "i \<le> find_close ls bc i" for ls bc i
    by (induction ls bc i rule: find_close.induct) (auto simp del: One_nat_def)
  have eb: "i \<le> snd (extract_block ls i)" for ls i
    using fc [of "Suc i" "drop (Suc i) ls" 1] by (simp add: extract_block_def Let_def)
  have fl: "idx (flush_buffer s0) = idx s0" for s0
    by (simp add: flush_buffer_def Let_def split: prod.splits)
  have lb: "k < snd (extract_loop_body ls k)" for ls k
    using eb [of "k + 1" ls] by (simp add: extract_loop_body_def)
  have ie: "k < snd (snd (extract_if_else_blocks ls k))" for ls k
    using eb [of "k + 1" ls] eb [of "snd (extract_block ls (k + 1)) + 1" ls]
    by (auto simp: extract_if_else_blocks_def Let_def split: prod.splits)
  have dw: "k < snd (snd (extract_do_while_body_and_condition ls k))" for ls k
    using eb [of "k + 1" ls]
    by (auto simp: extract_do_while_body_and_condition_def Let_def split: prod.splits)
  have a: "if_step rec lines st l = Some st' \<Longrightarrow> idx st < idx st'" for l
    using ie [of "idx st" lines]
    by (auto simp: if_step_def Let_def fl split: option.splits prod.splits)
  have b: "for_step rec lines st l = Some st' \<Longrightarrow> idx st < idx st'" for l
    using lb [of "idx st" lines]
    by (auto simp: for_step_def Let_def fl split: option.splits prod.splits)
  have c: "while_step rec lines st l = Some st' \<Longrightarrow> idx st < idx st'" for l
    using lb [of "idx st" lines]
    by (auto simp: while_step_def Let_def fl split: option.splits prod.splits)
  have d: "do_step rec lines st = Some st' \<Longrightarrow> idx st < idx st'"
    using dw [of "idx st" lines]
    by (auto simp: do_step_def Let_def fl split: option.splits prod.splits)
  have "idx st < idx st'"
    using s a b c d by (auto simp: step_def Let_def jump_step_def split: if_splits)
  with lt show "((rec, lines, st'), (rec, lines, st)) \<in> measure (\<lambda>(rec, lines, st). length lines - idx st)"
    by simp
qed

declare block_loop.simps [simp del]

text \<open>
  \<open>process_code_block\<close> calls itself on the text of each nested body, so the depth of the
  recursion follows the nesting of the input. \<open>depth\<close> is the number of nested
  invocations the run may still open; the result is \<open>None\<close> when they run out, and when
  the tokenizer does not return.
\<close>

primrec process_code_block :: "nat \<Rightarrow> cfg \<Rightarrow> node \<Rightarrow> string \<Rightarrow> (cfg \<times> node) option" where
  "process_code_block 0 g entry_node code_block = None"
| "process_code_block (Suc depth) g entry_node code_block =
     (if strip code_block = [] then Some (g, entry_node)
      else case split_into_statements code_block of
             None \<Rightarrow> None
           | Some lines \<Rightarrow>
               (case block_loop (process_code_block depth) lines
                       \<lparr>graph = g, current_node = entry_node, idx = 0,
                        statement_buffer = [], loop_stack = []\<rparr> of
                  None \<Rightarrow> None
                | Some st \<Rightarrow>
                    (let st' = flush_buffer st in Some (graph st', current_node st'))))"


section \<open>The function entry\<close>

text \<open>
  The scan for the brace that closes the function body: the index of that brace, or 0
  when the text ends first.
\<close>

fun find_body_end :: "string \<Rightarrow> nat \<Rightarrow> nat \<Rightarrow> nat" where
  "find_body_end [] brace_count i = 0"
| "find_body_end (c # cs) brace_count i =
     (if c = CHR ''{'' then find_body_end cs (brace_count + 1) (i + 1)
      else if c = CHR ''}''
        then (if brace_count - 1 = 0 then i else find_body_end cs (brace_count - 1) (i + 1))
      else find_body_end cs brace_count (i + 1))"

definition remove_comments :: "string \<Rightarrow> string" where
  "remove_comments code = rx_remove block_comment_rx (rx_remove line_comment_rx code)"

text \<open>The text behind a match of the signature pattern is the text from \<open>body_start\<close> on.\<close>

definition parse_cpp_code :: "nat \<Rightarrow> string \<Rightarrow> cfg option" where
  "parse_cpp_code depth code0 =
     (let code = remove_comments code0;
          (g0, start_node) = add_node new_cfg ''START'' Start
      in case rx_search function_rx code of
           Some ([signature], body) \<Rightarrow>
             (let (g1, function_node) = add_node g0 signature Statement;
                  g2 = add_edge g1 start_node function_node None;
                  body_end = find_body_end body 1 0;
                  function_body = strip (take body_end body)
              in case process_code_block depth g2 function_node function_body of
                   None \<Rightarrow> None
                 | Some (g3, last_node) \<Rightarrow>
                     (let (g4, end_node) = add_node g3 ''END'' End
                      in Some (add_edge g4 last_node end_node None)))
         | _ \<Rightarrow> Some g0)"


section \<open>Well-formed graphs and what a builder call may change\<close>

text \<open>
  The vocabulary of the proofs. A graph is well formed when every edge joins nodes whose ids
  have been handed out. \<open>frame g e g'\<close> says that \<open>g'\<close> grew out of the well-formed graph
  \<open>g\<close> by work that started at the node with id \<open>e\<close>: the nodes and edges of \<open>g\<close> are still
  there, in place and unchanged, and every edge behind them ends in a node created since and
  starts from \<open>e\<close> or from such a node. \<open>with_node\<close> and \<open>new_node\<close> name the two
  components of the result of \<open>add_node\<close>.
\<close>

definition wf_cfg :: "cfg \<Rightarrow> bool" where
  "wf_cfg g = (\<forall>x \<in> set (edges g). source x < next_id g \<and> target x < next_id g)"

definition inside :: "nat \<Rightarrow> nat \<Rightarrow> nat \<Rightarrow> bool" where
  "inside n0 e k = (k = e \<or> n0 \<le> k)"

definition frame :: "cfg \<Rightarrow> nat \<Rightarrow> cfg \<Rightarrow> bool" where
  "frame g e g' =
     (wf_cfg g \<and> e < next_id g \<and> wf_cfg g' \<and> next_id g \<le> next_id g' \<and>
      (\<exists>ns. nodes g' = nodes g @ ns) \<and>
      (\<exists>es. edges g' = edges g @ es \<and>
            (\<forall>x \<in> set es. next_id g \<le> target x \<and> inside (next_id g) e (source x))))"

definition with_node :: "cfg \<Rightarrow> string \<Rightarrow> node_type \<Rightarrow> cfg" where
  "with_node g c t = fst (add_node g c t)"

definition new_node :: "cfg \<Rightarrow> string \<Rightarrow> node_type \<Rightarrow> node" where
  "new_node g c t = snd (add_node g c t)"

definition rec_ok :: "builder \<Rightarrow> bool" where
  "rec_ok rec =
     (\<forall>g e code g' l. rec g e code = Some (g', l) \<longrightarrow> wf_cfg g \<longrightarrow> nid e < next_id g \<longrightarrow>
        frame g (nid e) g' \<and> nid l < next_id g' \<and> inside (next_id g) (nid e) (nid l))"

definition state_inv :: "cfg \<Rightarrow> nat \<Rightarrow> block_state \<Rightarrow> bool" where
  "state_inv g e st =
     (frame g e (graph st) \<and> nid (current_node st) < next_id (graph st) \<and>
      inside (next_id g) e (nid (current_node st)) \<and> loop_stack st = [])"



section \<open>Edge insertion\<close>

lemma add_edge_list_keys:
  "map edge_key (add_edge_list es s t c) =
     (if (s, t) \<in> set (map edge_key es) then map edge_key es else map edge_key es @ [(s, t)])"
  by (induction es) (auto simp: edge_key_def)

lemma add_edge_list_distinct:
  "distinct (map edge_key es) \<Longrightarrow> distinct (map edge_key (add_edge_list es s t c))"
  by (simp add: add_edge_list_keys)

lemma add_edge_list_new:
  "(s, t) \<notin> set (map edge_key es) \<Longrightarrow>
   add_edge_list es s t c = es @ [\<lparr>source = s, target = t, condition = c\<rparr>]"
  by (induction es) (auto simp: edge_key_def)

lemma add_edge_list_at:
  "distinct (map edge_key es) \<Longrightarrow> k < length es \<Longrightarrow> edge_key (es ! k) = (s, t) \<Longrightarrow>
   add_edge_list es s t c =
     (if condition (es ! k) = None \<and> c \<noteq> None then es[k := (es ! k)\<lparr>condition := c\<rparr>] else es)"
proof (induction es arbitrary: k)
  case Nil
  then show ?case by simp
next
  case (Cons e es)
  show ?case
  proof (cases k)
    case 0
    with Cons.prems show ?thesis by (simp add: edge_key_def)
  next
    case (Suc j)
    with Cons.prems have j: "j < length es" "edge_key (es ! j) = (s, t)" by simp_all
    then have "(s, t) \<in> set (map edge_key es)"
      by (metis length_map nth_map nth_mem)
    with Cons.prems have "edge_key e \<noteq> (s, t)" by auto
    then have ne: "\<not> (source e = s \<and> target e = t)" by (auto simp: edge_key_def)
    from Cons.prems have "distinct (map edge_key es)" by simp
    note ih = Cons.IH [OF this j]
    have step: "add_edge_list (e # es) s t c = e # add_edge_list es s t c"
      using ne by (cases "source e = s") auto
    show ?thesis
    proof (cases "condition (es ! j) = None \<and> c \<noteq> None")
      case True
      with ih have "add_edge_list es s t c = es[j := (es ! j)\<lparr>condition := c\<rparr>]" by simp
      with step True Suc show ?thesis by simp
    next
      case False
      with ih have "add_edge_list es s t c = es" by auto
      with step False Suc show ?thesis by auto
    qed
  qed
qed

lemma add_edges_distinct: "distinct (map edge_key (edges (add_edges calls)))"
proof -
  have "distinct (map edge_key (edges g)) \<Longrightarrow>
        distinct (map edge_key (edges (foldl (\<lambda>g (a, b, c). add_edge g a b c) g calls)))" for g
  proof (induction calls arbitrary: g)
    case Nil
    then show ?case by simp
  next
    case (Cons x xs)
    obtain a b c where x: "x = (a, b, c)" by (cases x)
    have "distinct (map edge_key (edges (add_edge g a b c)))"
      using Cons.prems by (simp add: add_edge_def add_edge_list_distinct)
    from Cons.IH [OF this] show ?case by (simp add: x)
  qed
  then show ?thesis by (simp add: add_edges_def new_cfg_def)
qed

text \<open>
  C2. Whatever sequence of \<open>add_edge\<close> calls built the graph, its edges have pairwise
  different (source, target) pairs, and one more call keeps it so. If the pair of that call
  is stored at position \<open>k\<close> with condition \<open>None\<close> and the requested condition is \<open>True\<close> or
  \<open>False\<close>, the edge at \<open>k\<close> takes the requested condition and nothing else changes; if the
  pair is stored in any other combination, the edge list is unchanged; if the pair is not
  stored, the new edge is appended at the end.
\<close>

theorem add_edge_one_edge_per_pair:
  fixes calls :: "(node \<times> node \<times> bool option) list"
  defines "g \<equiv> add_edges calls"
  shows "distinct (map edge_key (edges g)) \<and>
         distinct (map edge_key (edges (add_edge g a b c))) \<and>
         (\<forall>k < length (edges g). edge_key (edges g ! k) = (nid a, nid b) \<longrightarrow>
            (condition (edges g ! k) = None \<and> c \<noteq> None \<longrightarrow>
               edges (add_edge g a b c) = (edges g)[k := (edges g ! k)\<lparr>condition := c\<rparr>]) \<and>
            (\<not> (condition (edges g ! k) = None \<and> c \<noteq> None) \<longrightarrow>
               edges (add_edge g a b c) = edges g)) \<and>
         ((nid a, nid b) \<notin> set (map edge_key (edges g)) \<longrightarrow>
            edges (add_edge g a b c) =
              edges g @ [\<lparr>source = nid a, target = nid b, condition = c\<rparr>])"
proof -
  have d: "distinct (map edge_key (edges g))"
    unfolding g_def by (rule add_edges_distinct)
  have d': "distinct (map edge_key (edges (add_edge g a b c)))"
    using d by (simp add: add_edge_def add_edge_list_distinct)
  have at: "\<forall>k < length (edges g). edge_key (edges g ! k) = (nid a, nid b) \<longrightarrow>
            (condition (edges g ! k) = None \<and> c \<noteq> None \<longrightarrow>
               edges (add_edge g a b c) = (edges g)[k := (edges g ! k)\<lparr>condition := c\<rparr>]) \<and>
            (\<not> (condition (edges g ! k) = None \<and> c \<noteq> None) \<longrightarrow>
               edges (add_edge g a b c) = edges g)"
    using add_edge_list_at [OF d] by (simp add: add_edge_def)
  have new: "(nid a, nid b) \<notin> set (map edge_key (edges g)) \<longrightarrow>
            edges (add_edge g a b c) =
              edges g @ [\<lparr>source = nid a, target = nid b, condition = c\<rparr>]"
    using add_edge_list_new by (simp add: add_edge_def)
  from d d' at new show ?thesis by blast
qed

theorem add_edge_one_edge_per_pair_witness:
  "edges (add_edge (add_edges [(\<lparr>nid = 0, content = ''a'', ntype = Statement\<rparr>,
                                \<lparr>nid = 1, content = ''b'', ntype = Statement\<rparr>, None)])
            \<lparr>nid = 0, content = ''a'', ntype = Statement\<rparr>
            \<lparr>nid = 1, content = ''b'', ntype = Statement\<rparr> (Some True))
     = [\<lparr>source = 0, target = 1, condition = Some True\<rparr>] \<and>
   edges (add_edge (add_edges [(\<lparr>nid = 0, content = ''a'', ntype = Statement\<rparr>,
                                \<lparr>nid = 1, content = ''b'', ntype = Statement\<rparr>, Some False)])
            \<lparr>nid = 0, content = ''a'', ntype = Statement\<rparr>
            \<lparr>nid = 1, content = ''b'', ntype = Statement\<rparr> (Some True))
     = [\<lparr>source = 0, target = 1, condition = Some False\<rparr>] \<and>
   edges (add_edge (add_edges [(\<lparr>nid = 0, content = ''a'', ntype = Statement\<rparr>,
                                \<lparr>nid = 1, content = ''b'', ntype = Statement\<rparr>, None)])
            \<lparr>nid = 1, content = ''b'', ntype = Statement\<rparr>
            \<lparr>nid = 0, content = ''a'', ntype = Statement\<rparr> None)
     = [\<lparr>source = 0, target = 1, condition = None\<rparr>,
        \<lparr>source = 1, target = 0, condition = None\<rparr>]"
  using add_edge_one_edge_per_pair [of "[(\<lparr>nid = 0, content = ''a'', ntype = Statement\<rparr>,
      \<lparr>nid = 1, content = ''b'', ntype = Statement\<rparr>, None)]"
      "\<lparr>nid = 0, content = ''a'', ntype = Statement\<rparr>"
      "\<lparr>nid = 1, content = ''b'', ntype = Statement\<rparr>" "Some True"]
  by (simp add: add_edges_def add_edge_def new_cfg_def edge_key_def)


section \<open>No function signature\<close>

text \<open>
  C9. When the signature pattern matches nowhere in the text (comments removed), the
  construction returns the graph whose only node is \<open>START\<close>, with id 0, and which has no
  edge; no \<open>END\<close> node and no body node is created. The result does not depend on the
  recursion depth available.
\<close>

theorem no_signature_only_start:
  "rx_search function_rx (remove_comments code) = None \<Longrightarrow>
   parse_cpp_code depth code =
     Some \<lparr>nodes = [\<lparr>nid = 0, content = ''START'', ntype = Start\<rparr>], edges = [], next_id = 1\<rparr>"
  by (simp add: parse_cpp_code_def add_node_def new_cfg_def Let_def)

theorem no_signature_only_start_witness:
  "rx_search function_rx (remove_comments ''x = 1;'') = None \<and>
   parse_cpp_code 0 ''x = 1;'' =
     Some \<lparr>nodes = [\<lparr>nid = 0, content = ''START'', ntype = Start\<rparr>], edges = [], next_id = 1\<rparr>"
proof -
  have h: "rx_search function_rx (remove_comments ''x = 1;'') = None" by code_simp
  from h no_signature_only_start [OF h, of 0] show ?thesis by simp
qed


section \<open>The frame of a builder call\<close>

lemma add_node_split: "add_node g c t = (with_node g c t, new_node g c t)"
  by (simp add: with_node_def new_node_def)

lemma with_node_simps [simp]:
  "next_id (with_node g c t) = Suc (next_id g)"
  "nodes (with_node g c t) = nodes g @ [new_node g c t]"
  "edges (with_node g c t) = edges g"
  by (simp_all add: with_node_def new_node_def add_node_def Let_def)

lemma new_node_simps [simp]:
  "nid (new_node g c t) = next_id g"
  "content (new_node g c t) = c"
  "ntype (new_node g c t) = t"
  by (simp_all add: new_node_def add_node_def Let_def)

lemma add_edge_simps [simp]:
  "next_id (add_edge g a b c) = next_id g"
  "nodes (add_edge g a b c) = nodes g"
  by (simp_all add: add_edge_def)

lemma add_edge_list_split:
  "\<forall>x \<in> set xs. target x \<noteq> t \<Longrightarrow> add_edge_list (xs @ ys) s t c = xs @ add_edge_list ys s t c"
  by (induction xs) auto

lemma add_edge_list_ball:
  "\<forall>x \<in> set ys. P (source x) (target x) \<Longrightarrow> P s t \<Longrightarrow>
   \<forall>x \<in> set (add_edge_list ys s t c). P (source x) (target x)"
  by (induction ys) auto

lemma frame_refl: "wf_cfg g \<Longrightarrow> e < next_id g \<Longrightarrow> frame g e g"
  by (simp add: frame_def)

lemma frame_node: "frame g e g' \<Longrightarrow> frame g e (with_node g' c t)"
proof -
  assume f: "frame g e g'"
  then obtain ns es where *: "nodes g' = nodes g @ ns" "edges g' = edges g @ es"
    "\<forall>x \<in> set es. next_id g \<le> target x \<and> inside (next_id g) e (source x)"
    by (auto simp: frame_def)
  from f have "wf_cfg g'" by (simp add: frame_def)
  then have w: "wf_cfg (with_node g' c t)"
    by (simp add: wf_cfg_def less_Suc_eq)
  have n: "nodes (with_node g' c t) = nodes g @ (ns @ [new_node g' c t])"
    by (simp add: *(1))
  have e: "edges (with_node g' c t) = edges g @ es"
    by (simp add: *(2))
  from f have "wf_cfg g" "e < next_id g" "next_id g \<le> next_id (with_node g' c t)"
    by (simp_all add: frame_def)
  with w n e *(3) show ?thesis
    unfolding frame_def by blast
qed

lemma frame_edge:
  assumes f: "frame g e g'" and a: "nid a < next_id g'" "inside (next_id g) e (nid a)"
    and b: "nid b < next_id g'" "next_id g \<le> nid b"
  shows "frame g e (add_edge g' a b c)"
proof -
  from f obtain ns es where es: "nodes g' = nodes g @ ns" "edges g' = edges g @ es"
    "\<forall>x \<in> set es. next_id g \<le> target x \<and> inside (next_id g) e (source x)"
    by (auto simp: frame_def)
  from f have wf: "wf_cfg g" "wf_cfg g'" by (simp_all add: frame_def)
  from wf(1) b(2) have "\<forall>x \<in> set (edges g). target x \<noteq> nid b"
    by (auto simp: wf_cfg_def)
  then have eq: "edges (add_edge g' a b c) = edges g @ add_edge_list es (nid a) (nid b) c"
    by (simp add: add_edge_def es(2) add_edge_list_split)
  have 1: "\<forall>x \<in> set (add_edge_list es (nid a) (nid b) c).
             next_id g \<le> target x \<and> inside (next_id g) e (source x)"
    by (rule add_edge_list_ball) (use es(3) a b in simp_all)
  have "\<forall>x \<in> set (add_edge_list (edges g') (nid a) (nid b) c).
             source x < next_id g' \<and> target x < next_id g'"
    by (rule add_edge_list_ball) (use wf(2) a b in \<open>simp_all add: wf_cfg_def\<close>)
  then have w: "wf_cfg (add_edge g' a b c)"
    by (simp add: wf_cfg_def add_edge_def)
  have n: "nodes (add_edge g' a b c) = nodes g @ ns"
    by (simp add: es(1))
  from f have "wf_cfg g" "e < next_id g" "next_id g \<le> next_id (add_edge g' a b c)"
    by (simp_all add: frame_def)
  with w n eq 1 show ?thesis
    unfolding frame_def by blast
qed

lemma frame_trans:
  assumes 1: "frame g e g1" and 2: "frame g1 a g2" and a: "inside (next_id g) e a"
  shows "frame g e g2"
proof -
  from 1 obtain ns1 es1 where 11: "nodes g1 = nodes g @ ns1" "edges g1 = edges g @ es1"
    "\<forall>x \<in> set es1. next_id g \<le> target x \<and> inside (next_id g) e (source x)"
    by (auto simp: frame_def)
  from 1 have 12: "next_id g \<le> next_id g1" "wf_cfg g" "e < next_id g"
    by (simp_all add: frame_def)
  from 2 obtain ns2 es2 where 21: "nodes g2 = nodes g1 @ ns2" "edges g2 = edges g1 @ es2"
    "\<forall>x \<in> set es2. next_id g1 \<le> target x \<and> inside (next_id g1) a (source x)"
    by (auto simp: frame_def)
  from 2 have 22: "next_id g1 \<le> next_id g2" "wf_cfg g2"
    by (simp_all add: frame_def)
  have "\<And>x. x \<in> set es2 \<Longrightarrow> next_id g \<le> target x \<and> inside (next_id g) e (source x)"
  proof -
    fix x assume "x \<in> set es2"
    with 21(3) have "next_id g1 \<le> target x" "inside (next_id g1) a (source x)" by simp_all
    with 12(1) a show "next_id g \<le> target x \<and> inside (next_id g) e (source x)"
      by (auto simp: inside_def)
  qed
  with 11(3) have b: "\<forall>x \<in> set (es1 @ es2). next_id g \<le> target x \<and> inside (next_id g) e (source x)"
    by auto
  have e: "edges g2 = edges g @ (es1 @ es2)" and n: "nodes g2 = nodes g @ (ns1 @ ns2)"
    using 11 21 by simp_all
  have "next_id g \<le> next_id g2" using 12(1) 22(1) by simp
  with b e n 12 22 show ?thesis
    unfolding frame_def by blast
qed

lemma frame_next_id: "frame g e g' \<Longrightarrow> next_id g \<le> next_id g'"
  by (simp add: frame_def)

lemma frame_wf: "frame g e g' \<Longrightarrow> wf_cfg g'"
  by (simp add: frame_def)

lemma rec_step:
  assumes r: "rec_ok rec" and f: "frame g e g1" and a: "nid a < next_id g1"
    "inside (next_id g) e (nid a)" and c: "rec g1 a body = Some (g2, l)"
  shows "frame g e g2" and "next_id g1 \<le> next_id g2" and "nid l < next_id g2" and
    "inside (next_id g) e (nid l)"
proof -
  from r c frame_wf [OF f] a(1)
  have *: "frame g1 (nid a) g2" "nid l < next_id g2" "inside (next_id g1) (nid a) (nid l)"
    unfolding rec_ok_def by blast+
  from frame_trans [OF f *(1) a(2)] show "frame g e g2" .
  from *(1) show "next_id g1 \<le> next_id g2" by (rule frame_next_id)
  from *(3) a(2) frame_next_id [OF f] show "inside (next_id g) e (nid l)"
    by (auto simp: inside_def)
  from *(2) show "nid l < next_id g2" .
qed

lemma flush_inv: "state_inv g e st \<Longrightarrow> state_inv g e (flush_buffer st)"
  by (auto simp: state_inv_def flush_buffer_def add_node_split inside_def
      intro!: frame_edge frame_node dest: frame_next_id)

lemma branch_frame:
  assumes r: "rec_ok rec" and f: "frame g e g0"
    and c: "nid cnd < next_id g0" "inside (next_id g) e (nid cnd)"
    and m: "nid m < next_id g0" "next_id g \<le> nid m"
    and p: "process_branch rec g0 cnd m body txt lbl = Some g1"
  shows "frame g e g1 \<and> next_id g0 \<le> next_id g1"
proof (cases "body = []")
  case True
  with p have "g1 = add_edge g0 cnd m (Some lbl)" by (simp add: process_branch_def)
  with f c m show ?thesis by (simp add: frame_edge)
next
  case False
  let ?g1 = "with_node g0 txt Statement" and ?n = "new_node g0 txt Statement"
  let ?g2 = "add_edge ?g1 cnd ?n (Some lbl)"
  from False p obtain g3 l where rc: "rec ?g2 ?n body = Some (g3, l)"
    and g1: "g1 = add_edge g3 l m None"
    by (auto simp: process_branch_def add_node_split split: option.splits)
  have f2: "frame g e ?g2"
    using f c frame_next_id [OF f] by (auto intro!: frame_edge frame_node)
  have a1: "nid ?n < next_id ?g2" by simp
  have a2: "inside (next_id g) e (nid ?n)" using frame_next_id [OF f] by (simp add: inside_def)
  note * = rec_step [where rec = rec, OF r f2 a1 a2 rc]
  have "frame g e (add_edge g3 l m None)"
    by (rule frame_edge [OF *(1)]) (use * m in simp_all)
  with g1 *(2) show ?thesis by simp
qed

lemma state_inv_idx [simp]: "state_inv g e (st\<lparr>idx := k\<rparr>) = state_inv g e st"
  by (simp add: state_inv_def)

lemma state_inv_buffer [simp]: "state_inv g e (st\<lparr>statement_buffer := b\<rparr>) = state_inv g e st"
  by (simp add: state_inv_def)

lemma state_invI:
  "frame g e g' \<Longrightarrow> nid n < next_id g' \<Longrightarrow> next_id g \<le> nid n \<Longrightarrow> loop_stack st = [] \<Longrightarrow>
   state_inv g e (st\<lparr>graph := g', current_node := n, idx := k, loop_stack := butlast (loop_stack st @ [c])\<rparr>)"
  by (simp add: state_inv_def inside_def)

lemma if_step_inv:
  assumes r: "rec_ok rec" and i: "state_inv g e st0" and s: "if_step rec lines st0 line = Some st'"
  shows "state_inv g e st'"
proof -
  let ?st = "flush_buffer st0"
  from i have inv: "state_inv g e ?st" by (rule flush_inv)
  then have f: "frame g e (graph ?st)" and cur: "nid (current_node ?st) < next_id (graph ?st)"
    "inside (next_id g) e (nid (current_node ?st))" and ls: "loop_stack ?st = []"
    by (simp_all add: state_inv_def)
  note le = frame_next_id [OF f]
  show ?thesis
  proof (cases "if_match line")
    case None
    with s inv show ?thesis by (auto simp: if_step_def Let_def)
  next
    case (Some c)
    let ?g1 = "with_node (graph ?st) (strip c) Condition"
    let ?cnd = "new_node (graph ?st) (strip c) Condition"
    let ?g2 = "add_edge ?g1 (current_node ?st) ?cnd None"
    let ?g3 = "with_node ?g2 ''After If-Else (Merge Node)'' Merge"
    let ?m = "new_node ?g2 ''After If-Else (Merge Node)'' Merge"
    obtain if_body else_body next_idx where
      ex: "extract_if_else_blocks lines (idx ?st) = (if_body, else_body, next_idx)"
      by (cases "extract_if_else_blocks lines (idx ?st)") auto
    from s Some ex obtain g4 g5 where
      b1: "process_branch rec ?g3 ?cnd ?m if_body ''If Branch Entry'' True = Some g4" and
      b2: "process_branch rec g4 ?cnd ?m else_body ''Else Branch Entry'' False = Some g5" and
      st': "st' = ?st\<lparr>graph := g5, current_node := ?m, idx := next_idx\<rparr>"
      by (auto simp: if_step_def Let_def add_node_split split: option.splits)
    have f3: "frame g e ?g3"
      using f cur le by (auto intro!: frame_edge frame_node)
    from branch_frame [OF r f3 _ _ _ _ b1] le
    have 4: "frame g e g4" "next_id ?g3 \<le> next_id g4" by (simp_all add: inside_def)
    from branch_frame [OF r 4(1) _ _ _ _ b2] 4(2) le
    have 5: "frame g e g5" "next_id g4 \<le> next_id g5" by (simp_all add: inside_def)
    from 5 4(2) le ls show ?thesis
      by (simp add: st' state_inv_def inside_def)
  qed
qed


lemma loop_body_tail:
  assumes r: "rec_ok rec" and f: "frame g e g0"
    and c: "nid cnd < next_id g0" "next_id g \<le> nid cnd"
    and rc: "rec (add_edge (with_node g0 txt Statement) cnd (new_node g0 txt Statement) lbl)
               (new_node g0 txt Statement) body = Some (g3, l)"
  shows "frame g e g3" and "Suc (next_id g0) \<le> next_id g3" and "nid l < next_id g3" and
    "next_id g \<le> nid l"
proof -
  let ?g1 = "with_node g0 txt Statement" and ?n = "new_node g0 txt Statement"
  let ?g2 = "add_edge ?g1 cnd ?n lbl"
  note le = frame_next_id [OF f]
  have f1: "frame g e ?g1" by (rule frame_node [OF f])
  have f2: "frame g e ?g2"
    by (rule frame_edge [OF f1]) (use c le in \<open>simp_all add: inside_def\<close>)
  have a1: "nid ?n < next_id ?g2" by simp
  have a2: "inside (next_id g) e (nid ?n)" using le by (simp add: inside_def)
  note * = rec_step [where rec = rec, OF r f2 a1 a2 rc]
  from *(1) show "frame g e g3" .
  from *(2) show "Suc (next_id g0) \<le> next_id g3" by simp
  from *(3) show "nid l < next_id g3" .
  from r rc frame_wf [OF f2] a1 have "inside (next_id ?g2) (nid ?n) (nid l)"
    unfolding rec_ok_def by blast
  with le show "next_id g \<le> nid l" by (auto simp: inside_def)
qed

lemma while_body_frame:
  assumes r: "rec_ok rec" and f: "frame g e g0"
    and c: "nid cnd < next_id g0" "next_id g \<le> nid cnd"
    and p: "while_body rec g0 cnd body = Some g1"
  shows "frame g e g1 \<and> next_id g0 \<le> next_id g1"
proof (cases "body = []")
  case True
  with p have "g1 = add_edge g0 cnd cnd (Some True)" by (simp add: while_body_def)
  moreover have "frame g e (add_edge g0 cnd cnd (Some True))"
    by (rule frame_edge [OF f]) (use c in \<open>simp_all add: inside_def\<close>)
  ultimately show ?thesis by simp
next
  case False
  with p obtain g3 l where
    rc: "rec (add_edge (with_node g0 ''While Loop Body Entry'' Statement) cnd
               (new_node g0 ''While Loop Body Entry'' Statement) (Some True))
             (new_node g0 ''While Loop Body Entry'' Statement) body = Some (g3, l)"
    and g1: "g1 = add_edge g3 l cnd None"
    by (auto simp: while_body_def add_node_split split: option.splits)
  note * = loop_body_tail [where rec = rec, OF r f c rc]
  have "frame g e (add_edge g3 l cnd None)"
    by (rule frame_edge [OF *(1)]) (use * c in \<open>simp_all add: inside_def\<close>)
  with g1 *(2) show ?thesis by simp
qed

lemma for_body_frame:
  assumes r: "rec_ok rec" and f: "frame g e g0"
    and c: "nid cnd < next_id g0" "next_id g \<le> nid cnd"
    and p: "for_body rec g0 cnd upd body = Some g1"
  shows "frame g e g1 \<and> next_id g0 \<le> next_id g1"
proof (cases "body = []")
  case True
  note le = frame_next_id [OF f]
  show ?thesis
  proof (cases "upd = []")
    case True
    with \<open>body = []\<close> p have "g1 = add_edge g0 cnd cnd (Some True)" by (simp add: for_body_def)
    moreover have "frame g e (add_edge g0 cnd cnd (Some True))"
      by (rule frame_edge [OF f]) (use c in \<open>simp_all add: inside_def\<close>)
    ultimately show ?thesis by simp
  next
    case False
    let ?g1 = "with_node g0 upd Statement" and ?u = "new_node g0 upd Statement"
    from False \<open>body = []\<close> p
    have g1: "g1 = add_edge (add_edge ?g1 cnd ?u (Some True)) ?u cnd None"
      by (simp add: for_body_def add_node_split)
    have f1: "frame g e ?g1" by (rule frame_node [OF f])
    have f2: "frame g e (add_edge ?g1 cnd ?u (Some True))"
      by (rule frame_edge [OF f1]) (use c le in \<open>simp_all add: inside_def\<close>)
    have "frame g e (add_edge (add_edge ?g1 cnd ?u (Some True)) ?u cnd None)"
      by (rule frame_edge [OF f2]) (use c le in \<open>simp_all add: inside_def\<close>)
    with g1 show ?thesis by simp
  qed
next
  case False
  with p obtain g3 l where
    rc: "rec (add_edge (with_node g0 ''For Loop Body Entry'' Statement) cnd
               (new_node g0 ''For Loop Body Entry'' Statement) (Some True))
             (new_node g0 ''For Loop Body Entry'' Statement) body = Some (g3, l)"
    and g1: "g1 = (if upd \<noteq> []
                   then add_edge (add_edge (with_node g3 upd Statement) l
                          (new_node g3 upd Statement) None) (new_node g3 upd Statement) cnd None
                   else add_edge g3 l cnd None)"
    by (auto simp: for_body_def add_node_split split: option.splits if_splits)
  note * = loop_body_tail [where rec = rec, OF r f c rc]
  show ?thesis
  proof (cases "upd = []")
    case True
    have "frame g e (add_edge g3 l cnd None)"
      by (rule frame_edge [OF *(1)]) (use * c in \<open>simp_all add: inside_def\<close>)
    with g1 True *(2) show ?thesis by simp
  next
    case False
    let ?g4 = "with_node g3 upd Statement" and ?u = "new_node g3 upd Statement"
    have f4: "frame g e ?g4" by (rule frame_node [OF *(1)])
    have f5: "frame g e (add_edge ?g4 l ?u None)"
      by (rule frame_edge [OF f4]) (use * c frame_next_id [OF *(1)] in \<open>simp_all add: inside_def\<close>)
    have "frame g e (add_edge (add_edge ?g4 l ?u None) ?u cnd None)"
      by (rule frame_edge [OF f5]) (use * c frame_next_id [OF *(1)] in \<open>simp_all add: inside_def\<close>)
    with g1 False *(2) show ?thesis by simp
  qed
qed

lemma for_init_frame:
  assumes f: "frame g e g0" and c: "nid cur < next_id g0" "inside (next_id g) e (nid cur)"
    and p: "for_init g0 cur init = (g1, cur1)"
  shows "frame g e g1 \<and> next_id g0 \<le> next_id g1 \<and> nid cur1 < next_id g1 \<and>
         inside (next_id g) e (nid cur1)"
proof (cases "init = []")
  case True
  with p f c show ?thesis by (simp add: for_init_def)
next
  case False
  let ?g1 = "with_node g0 init Statement" and ?n = "new_node g0 init Statement"
  from False p have g1: "g1 = add_edge ?g1 cur ?n None" "cur1 = ?n"
    by (auto simp: for_init_def add_node_split)
  note le = frame_next_id [OF f]
  have f1: "frame g e ?g1" by (rule frame_node [OF f])
  have "frame g e (add_edge ?g1 cur ?n None)"
    by (rule frame_edge [OF f1]) (use c le in simp_all)
  with g1 le show ?thesis by (simp add: inside_def)
qed

lemma while_step_inv:
  assumes r: "rec_ok rec" and i: "state_inv g e st0" and s: "while_step rec lines st0 line = Some st'"
  shows "state_inv g e st'"
proof -
  let ?st = "flush_buffer st0"
  from i have inv: "state_inv g e ?st" by (rule flush_inv)
  then have f: "frame g e (graph ?st)" and cur: "nid (current_node ?st) < next_id (graph ?st)"
    "inside (next_id g) e (nid (current_node ?st))" and ls: "loop_stack ?st = []"
    by (simp_all add: state_inv_def)
  note le = frame_next_id [OF f]
  show ?thesis
  proof (cases "while_match line")
    case None
    with s inv show ?thesis by (auto simp: while_step_def Let_def)
  next
    case (Some c)
    let ?g1 = "with_node (graph ?st) (strip c) LoopCondition"
    let ?cnd = "new_node (graph ?st) (strip c) LoopCondition"
    let ?g2 = "add_edge ?g1 (current_node ?st) ?cnd None"
    let ?g3 = "with_node ?g2 ''After Loop (Merge Node)'' Merge"
    let ?m = "new_node ?g2 ''After Loop (Merge Node)'' Merge"
    let ?g4 = "add_edge ?g3 ?cnd ?m (Some False)"
    obtain loop_body next_idx where
      ex: "extract_loop_body lines (idx ?st) = (loop_body, next_idx)"
      by (cases "extract_loop_body lines (idx ?st)") auto
    have f1: "frame g e ?g1" by (rule frame_node [OF f])
    have f2: "frame g e ?g2" by (rule frame_edge [OF f1]) (use cur le in simp_all)
    have f3: "frame g e ?g3" by (rule frame_node [OF f2])
    have f4: "frame g e ?g4" by (rule frame_edge [OF f3]) (use le in \<open>simp_all add: inside_def\<close>)
    from s Some ex obtain g5 where b: "while_body rec ?g4 ?cnd loop_body = Some g5" and
      st': "st' = ?st\<lparr>graph := g5, current_node := ?m, idx := next_idx,
          loop_stack := butlast (loop_stack ?st @ [\<lparr>condition_node = ?cnd, merge_node = ?m\<rparr>])\<rparr>"
      by (auto simp: while_step_def Let_def add_node_split split: option.splits)
    have c1: "nid ?cnd < next_id ?g4" "next_id g \<le> nid ?cnd" using le by simp_all
    from while_body_frame [where rec = rec, OF r f4 c1 b]
    have 5: "frame g e g5" "next_id ?g4 \<le> next_id g5" by simp_all
    show ?thesis
      unfolding st' using 5 le ls by (intro state_invI) simp_all
  qed
qed

lemma for_step_inv:
  assumes r: "rec_ok rec" and i: "state_inv g e st0" and s: "for_step rec lines st0 line = Some st'"
  shows "state_inv g e st'"
proof -
  let ?st = "flush_buffer st0"
  from i have inv: "state_inv g e ?st" by (rule flush_inv)
  then have f: "frame g e (graph ?st)" and cur: "nid (current_node ?st) < next_id (graph ?st)"
    "inside (next_id g) e (nid (current_node ?st))" and ls: "loop_stack ?st = []"
    by (simp_all add: state_inv_def)
  note le = frame_next_id [OF f]
  show ?thesis
  proof (cases "for_match line")
    case None
    with s inv show ?thesis by (auto simp: for_step_def Let_def)
  next
    case (Some m)
    obtain a b c where m: "m = (a, b, c)" by (cases m) auto
    obtain g1 cur1 where fi: "for_init (graph ?st) (current_node ?st) (strip a) = (g1, cur1)"
      by (cases "for_init (graph ?st) (current_node ?st) (strip a)") auto
    from for_init_frame [OF f cur fi]
    have 1: "frame g e g1" "next_id (graph ?st) \<le> next_id g1" "nid cur1 < next_id g1"
      "inside (next_id g) e (nid cur1)" by simp_all
    let ?ce = "if strip b \<noteq> [] then strip b else ''true''"
    let ?g2 = "with_node g1 ?ce LoopCondition"
    let ?cnd = "new_node g1 ?ce LoopCondition"
    let ?g3 = "add_edge ?g2 cur1 ?cnd None"
    let ?g4 = "with_node ?g3 ''After For Loop (Merge Node)'' Merge"
    let ?m = "new_node ?g3 ''After For Loop (Merge Node)'' Merge"
    let ?g5 = "add_edge ?g4 ?cnd ?m (Some False)"
    obtain loop_body next_idx where
      ex: "extract_loop_body lines (idx ?st) = (loop_body, next_idx)"
      by (cases "extract_loop_body lines (idx ?st)") auto
    have f2: "frame g e ?g2" by (rule frame_node [OF 1(1)])
    have f3: "frame g e ?g3" by (rule frame_edge [OF f2]) (use 1 le in simp_all)
    have f4: "frame g e ?g4" by (rule frame_node [OF f3])
    have f5: "frame g e ?g5" by (rule frame_edge [OF f4]) (use 1 le in \<open>simp_all add: inside_def\<close>)
    from s Some m ex fi obtain g6 where b: "for_body rec ?g5 ?cnd (strip c) loop_body = Some g6" and
      st': "st' = ?st\<lparr>graph := g6, current_node := ?m, idx := next_idx,
          loop_stack := butlast (loop_stack ?st @ [\<lparr>condition_node = ?cnd, merge_node = ?m\<rparr>])\<rparr>"
      by (auto simp: for_step_def Let_def add_node_split split: option.splits)
    have c1: "nid ?cnd < next_id ?g5" "next_id g \<le> nid ?cnd" using le 1 by simp_all
    from for_body_frame [where rec = rec, OF r f5 c1 b]
    have 6: "frame g e g6" "next_id ?g5 \<le> next_id g6" by simp_all
    show ?thesis
      unfolding st' using 6 le 1 ls by (intro state_invI) simp_all
  qed
qed


lemma do_step_inv:
  assumes r: "rec_ok rec" and i: "state_inv g e st0" and s: "do_step rec lines st0 = Some st'"
  shows "state_inv g e st'"
proof -
  let ?st = "flush_buffer st0"
  from i have inv: "state_inv g e ?st" by (rule flush_inv)
  then have f: "frame g e (graph ?st)" and cur: "nid (current_node ?st) < next_id (graph ?st)"
    "inside (next_id g) e (nid (current_node ?st))" and ls: "loop_stack ?st = []"
    by (simp_all add: state_inv_def)
  note le = frame_next_id [OF f]
  let ?g1 = "with_node (graph ?st) ''do'' Statement"
  let ?ent = "new_node (graph ?st) ''do'' Statement"
  let ?g2 = "add_edge ?g1 (current_node ?st) ?ent None"
  obtain loop_body cond next_idx where
    ex: "extract_do_while_body_and_condition lines (idx ?st) = (loop_body, cond, next_idx)"
    by (cases "extract_do_while_body_and_condition lines (idx ?st)") auto
  let ?ct = "if cond \<noteq> [] then cond else ''x < 5''"
  have f2: "frame g e ?g2"
    using f cur le by (auto intro!: frame_edge frame_node)
  from s ex obtain g3 l where
    rc: "(if loop_body \<noteq> [] then rec ?g2 ?ent loop_body else Some (?g2, ?ent)) = Some (g3, l)" and
    st': "st' = ?st\<lparr>graph :=
             add_edge (add_edge (with_node (add_edge (with_node g3 ?ct LoopCondition) l
                  (new_node g3 ?ct LoopCondition) None) ''After Do-While Loop (Merge Node)'' Merge)
                (new_node g3 ?ct LoopCondition) ?ent (Some True))
               (new_node g3 ?ct LoopCondition)
               (new_node (add_edge (with_node g3 ?ct LoopCondition) l
                  (new_node g3 ?ct LoopCondition) None) ''After Do-While Loop (Merge Node)'' Merge)
               (Some False),
          current_node := new_node (add_edge (with_node g3 ?ct LoopCondition) l
                  (new_node g3 ?ct LoopCondition) None) ''After Do-While Loop (Merge Node)'' Merge,
          idx := next_idx,
          loop_stack := butlast (loop_stack ?st @ [\<lparr>condition_node = new_node g3 ?ct LoopCondition,
             merge_node = new_node (add_edge (with_node g3 ?ct LoopCondition) l
                  (new_node g3 ?ct LoopCondition) None) ''After Do-While Loop (Merge Node)'' Merge\<rparr>])\<rparr>"
    by (auto simp: do_step_def Let_def add_node_split split: option.splits if_splits)
  have *: "frame g e g3 \<and> next_id ?g2 \<le> next_id g3 \<and> nid l < next_id g3 \<and>
        inside (next_id g) e (nid l)"
  proof (cases "loop_body = []")
    case True
    with rc f2 le show ?thesis by (auto simp: inside_def)
  next
    case False
    with rc have "rec ?g2 ?ent loop_body = Some (g3, l)" by simp
    from rec_step [where rec = rec, OF r f2 _ _ this] le show ?thesis by (simp add: inside_def)
  qed
  then have "frame g e (graph st')"
    unfolding st' using le by (auto intro!: frame_edge frame_node simp: inside_def)
  then show ?thesis
    unfolding st' using le ls * by (intro state_invI) simp_all
qed


lemma jump_empty: "loop_stack st = [] \<Longrightarrow> jump_step st sel = st\<lparr>idx := idx st + 1\<rparr>"
  by (simp add: jump_step_def)

lemma step_inv:
  assumes r: "rec_ok rec" and i: "state_inv g e st" and s: "step rec lines st = Some st'"
  shows "state_inv g e st'"
proof -
  from i have ls: "loop_stack st = []" by (simp add: state_inv_def)
  let ?line = "strip (lines ! idx st)"
  consider
      (skip) "st' = st\<lparr>idx := idx st + 1\<rparr>"
    | (buf) "st' = st\<lparr>statement_buffer := statement_buffer st @ [?line], idx := idx st + 1\<rparr>"
    | (ifs) "if_step rec lines st ?line = Some st'"
    | (fors) "for_step rec lines st ?line = Some st'"
    | (whiles) "while_step rec lines st ?line = Some st'"
    | (dos) "do_step rec lines st = Some st'"
    using s by (auto simp: step_def Let_def jump_empty [OF ls] split: if_splits)
  then show ?thesis
  proof cases
    case skip
    with i show ?thesis by simp
  next
    case buf
    with i show ?thesis by simp
  next
    case ifs
    from if_step_inv [where rec = rec, OF r i ifs] show ?thesis .
  next
    case fors
    from for_step_inv [where rec = rec, OF r i fors] show ?thesis .
  next
    case whiles
    from while_step_inv [where rec = rec, OF r i whiles] show ?thesis .
  next
    case dos
    from do_step_inv [where rec = rec, OF r i dos] show ?thesis .
  qed
qed

lemma block_loop_inv:
  "rec_ok rec \<Longrightarrow> state_inv g e st \<Longrightarrow> block_loop rec lines st = Some st' \<Longrightarrow>
   state_inv g e st'"
proof (induction rec lines st rule: block_loop.induct)
  case (1 rec lines st)
  show ?case
  proof (cases "idx st < length lines")
    case False
    with "1.prems" show ?thesis by (simp add: block_loop.simps [of rec lines st])
  next
    case True
    with "1.prems"(3) obtain st1 where s: "step rec lines st = Some st1"
      and b: "block_loop rec lines st1 = Some st'"
      by (auto simp: block_loop.simps [of rec lines st] split: option.splits)
    from step_inv [where rec = rec, OF "1.prems"(1,2) s] have "state_inv g e st1" .
    from "1.IH" [OF True s "1.prems"(1) this b] show ?thesis .
  qed
qed

lemma process_ok: "rec_ok (process_code_block depth)"
proof (induction depth)
  case 0
  show ?case by (simp add: rec_ok_def)
next
  case (Suc depth)
  show ?case
    unfolding rec_ok_def
  proof (intro allI impI)
    fix g e code g' l
    assume p: "process_code_block (Suc depth) g e code = Some (g', l)"
      and w: "wf_cfg g" and v: "nid e < next_id g"
    show "frame g (nid e) g' \<and> nid l < next_id g' \<and> inside (next_id g) (nid e) (nid l)"
    proof (cases "strip code = []")
      case True
      with p w v show ?thesis by (simp add: frame_refl inside_def)
    next
      case False
      let ?st0 = "\<lparr>graph = g, current_node = e, idx = 0, statement_buffer = [], loop_stack = []\<rparr>"
      from False p obtain lines st where
        b: "block_loop (process_code_block depth) lines ?st0 = Some st" and
        r: "g' = graph (flush_buffer st)" "l = current_node (flush_buffer st)"
        by (auto simp: Let_def split: option.splits)
      have "state_inv g (nid e) ?st0"
        using w v by (simp add: state_inv_def frame_refl inside_def)
      from block_loop_inv [OF Suc this b] have "state_inv g (nid e) (flush_buffer st)"
        by (rule flush_inv)
      with r show ?thesis by (simp add: state_inv_def)
    qed
  qed
qed


section \<open>The shape of loops\<close>

lemma startswith_take:
  "startswith s p \<Longrightarrow> n \<le> length p \<Longrightarrow> take n s = take n p"
  by (metis startswith_def min.absorb1 take_take)

lemma startswith_other:
  "startswith s p \<Longrightarrow> length q \<le> length p \<Longrightarrow> take (length q) p \<noteq> q \<Longrightarrow> \<not> startswith s q"
  using startswith_take [of s p "length q"] by (auto simp: startswith_def)

lemma startswith_neq:
  "startswith s p \<Longrightarrow> take (length p) q \<noteq> p \<Longrightarrow> s \<noteq> q"
  by (auto simp: startswith_def)

lemma step_while:
  assumes "startswith line ''while''" "\<not> startswith line ''while(''"
    and "strip (lines ! idx st) = line"
  shows "step rec lines st = while_step rec lines st line"
proof -
  note sw = assms(1)
  have ne: "line \<noteq> []" "line \<noteq> ''continue;''" "line \<noteq> ''break;''"
    by (rule startswith_neq [OF sw], simp)+
  have "\<not> startswith line ''if''" "\<not> startswith line ''for''"
    by (rule startswith_other [OF sw]; simp)+
  with ne assms show ?thesis by (simp add: step_def Let_def)
qed

lemma flush_wf:
  assumes "wf_cfg (graph st)" "nid (current_node st) < next_id (graph st)"
  shows "wf_cfg (graph (flush_buffer st))"
    and "nid (current_node (flush_buffer st)) < next_id (graph (flush_buffer st))"
proof -
  have "state_inv (graph st) (nid (current_node st)) (st\<lparr>loop_stack := []\<rparr>)"
    using assms by (simp add: state_inv_def frame_refl inside_def)
  then have "state_inv (graph st) (nid (current_node st)) (flush_buffer (st\<lparr>loop_stack := []\<rparr>))"
    by (rule flush_inv)
  moreover have "graph (flush_buffer (st\<lparr>loop_stack := []\<rparr>)) = graph (flush_buffer st)"
    "current_node (flush_buffer (st\<lparr>loop_stack := []\<rparr>)) = current_node (flush_buffer st)"
    by (simp_all add: flush_buffer_def Let_def split: prod.splits)
  ultimately show "wf_cfg (graph (flush_buffer st))"
    and "nid (current_node (flush_buffer st)) < next_id (graph (flush_buffer st))"
    by (simp_all add: state_inv_def frame_def)
qed

lemma flush_fields [simp]:
  "idx (flush_buffer st) = idx st"
  "loop_stack (flush_buffer st) = loop_stack st"
  "statement_buffer (flush_buffer st) = []"
  by (simp_all add: flush_buffer_def Let_def split: prod.splits)

text \<open>An edge whose pair is not stored is appended.\<close>

lemma add_edge_append:
  "\<forall>x \<in> set (edges g). source x \<noteq> nid a \<or> target x \<noteq> nid b \<Longrightarrow>
   add_edge g a b c = g\<lparr>edges := edges g @ [\<lparr>source = nid a, target = nid b, condition = c\<rparr>]\<rparr>"
proof -
  assume "\<forall>x \<in> set (edges g). source x \<noteq> nid a \<or> target x \<noteq> nid b"
  then have "(nid a, nid b) \<notin> set (map edge_key (edges g))"
    by (auto simp: edge_key_def)
  then show ?thesis by (simp add: add_edge_def add_edge_list_new)
qed

lemma with_node_eq:
  "with_node g c t = g\<lparr>nodes := nodes g @ [\<lparr>nid = next_id g, content = c, ntype = t\<rparr>],
                        next_id := Suc (next_id g)\<rparr>"
  by (simp add: with_node_def add_node_def Let_def)

lemma new_node_eq: "new_node g c t = \<lparr>nid = next_id g, content = c, ntype = t\<rparr>"
  by (simp add: new_node_def add_node_def Let_def)

text \<open>The three nodes and edges that open a loop, on a well-formed graph.\<close>

lemma loop_head_graph:
  assumes w: "wf_cfg g" and c: "nid cur < next_id g"
  shows "add_edge (with_node (add_edge (with_node g ct LoopCondition) cur
             (new_node g ct LoopCondition) None) mt Merge)
           (new_node g ct LoopCondition)
           (new_node (add_edge (with_node g ct LoopCondition) cur
             (new_node g ct LoopCondition) None) mt Merge) (Some False) =
         g\<lparr>nodes := nodes g @ [\<lparr>nid = next_id g, content = ct, ntype = LoopCondition\<rparr>,
                              \<lparr>nid = next_id g + 1, content = mt, ntype = Merge\<rparr>],
           edges := edges g @ [\<lparr>source = nid cur, target = next_id g, condition = None\<rparr>,
                              \<lparr>source = next_id g, target = next_id g + 1, condition = Some False\<rparr>],
           next_id := next_id g + 2\<rparr>"
proof -
  let ?g1 = "with_node g ct LoopCondition"
  have 1: "add_edge ?g1 cur (new_node g ct LoopCondition) None =
       ?g1\<lparr>edges := edges ?g1 @ [\<lparr>source = nid cur, target = next_id g, condition = None\<rparr>]\<rparr>"
    using w by (subst add_edge_append) (auto simp: wf_cfg_def)
  let ?g2 = "add_edge ?g1 cur (new_node g ct LoopCondition) None"
  let ?g3 = "with_node ?g2 mt Merge"
  have 2: "add_edge ?g3 (new_node g ct LoopCondition) (new_node ?g2 mt Merge) (Some False) =
       ?g3\<lparr>edges := edges ?g3 @ [\<lparr>source = next_id g, target = next_id g + 1, condition = Some False\<rparr>]\<rparr>"
    using w c by (subst add_edge_append) (auto simp: wf_cfg_def 1)
  show ?thesis
    unfolding 2 unfolding 1 by (simp add: with_node_eq)
qed


lemma process_frame:
  assumes "process_code_block depth g e code = Some (g', l)" "wf_cfg g" "nid e < next_id g"
  shows "\<exists>ns es. nodes g' = nodes g @ ns \<and> edges g' = edges g @ es \<and>
           (\<forall>x \<in> set es. next_id g \<le> target x \<and> (source x = nid e \<or> next_id g \<le> source x))"
    and "wf_cfg g'" and "next_id g \<le> next_id g'" and "nid l < next_id g'"
    and "nid l = nid e \<or> next_id g \<le> nid l"
proof -
  from process_ok [of depth] assms
  have *: "frame g (nid e) g'" "nid l < next_id g'" "inside (next_id g) (nid e) (nid l)"
    unfolding rec_ok_def by blast+
  from *(1) show "\<exists>ns es. nodes g' = nodes g @ ns \<and> edges g' = edges g @ es \<and>
           (\<forall>x \<in> set es. next_id g \<le> target x \<and> (source x = nid e \<or> next_id g \<le> source x))"
    unfolding frame_def inside_def by blast
  from *(1) show "wf_cfg g'" "next_id g \<le> next_id g'" by (simp_all add: frame_def)
  from *(2) show "nid l < next_id g'" .
  from *(3) show "nid l = nid e \<or> next_id g \<le> nid l" by (simp add: inside_def)
qed

lemma while_step_shape:
  fixes st :: block_state and c :: string
  defines "s1 \<equiv> flush_buffer st"
  defines "G \<equiv> graph s1"
  defines "cnd \<equiv> \<lparr>nid = next_id G, content = strip c, ntype = LoopCondition\<rparr>"
  defines "mrg \<equiv> \<lparr>nid = next_id G + 1, content = ''After Loop (Merge Node)'', ntype = Merge\<rparr>"
  defines "G4 \<equiv> G\<lparr>nodes := nodes G @ [cnd, mrg],
           edges := edges G @ [\<lparr>source = nid (current_node s1), target = next_id G, condition = None\<rparr>,
                              \<lparr>source = next_id G, target = next_id G + 1, condition = Some False\<rparr>],
           next_id := next_id G + 2\<rparr>"
  assumes wf: "wf_cfg (graph st)" "nid (current_node st) < next_id (graph st)"
    and m: "while_match line = Some c"
    and ex: "extract_loop_body lines (idx st) = (loop_body, next_idx)"
  shows "while_step rec lines st line =
           (case while_body rec G4 cnd loop_body of
              None \<Rightarrow> None
            | Some g \<Rightarrow> Some (s1\<lparr>graph := g, current_node := mrg, idx := next_idx\<rparr>))"
proof -
  note w = flush_wf [OF wf, folded s1_def G_def]
  have g4: "add_edge (with_node (add_edge (with_node G (strip c) LoopCondition) (current_node s1)
             (new_node G (strip c) LoopCondition) None) ''After Loop (Merge Node)'' Merge)
           (new_node G (strip c) LoopCondition)
           (new_node (add_edge (with_node G (strip c) LoopCondition) (current_node s1)
             (new_node G (strip c) LoopCondition) None) ''After Loop (Merge Node)'' Merge) (Some False) = G4"
    unfolding G4_def cnd_def mrg_def by (rule loop_head_graph [OF w])
  have n1: "new_node G (strip c) LoopCondition = cnd"
    by (simp add: new_node_eq cnd_def)
  have n2: "new_node (add_edge (with_node G (strip c) LoopCondition) (current_node s1)
             (new_node G (strip c) LoopCondition) None) ''After Loop (Merge Node)'' Merge = mrg"
    by (simp add: new_node_eq mrg_def)
  have "while_step rec lines st line =
     (case while_body rec
        (add_edge (with_node (add_edge (with_node G (strip c) LoopCondition) (current_node s1)
             (new_node G (strip c) LoopCondition) None) ''After Loop (Merge Node)'' Merge)
           (new_node G (strip c) LoopCondition)
           (new_node (add_edge (with_node G (strip c) LoopCondition) (current_node s1)
             (new_node G (strip c) LoopCondition) None) ''After Loop (Merge Node)'' Merge) (Some False))
        (new_node G (strip c) LoopCondition) loop_body of
        None \<Rightarrow> None
      | Some g \<Rightarrow> Some (s1\<lparr>graph := g,
          current_node := new_node (add_edge (with_node G (strip c) LoopCondition) (current_node s1)
             (new_node G (strip c) LoopCondition) None) ''After Loop (Merge Node)'' Merge,
          idx := next_idx\<rparr>))"
    unfolding while_step_def Let_def add_node_split s1_def [symmetric] G_def [symmetric]
    using m ex by (simp add: s1_def split: option.splits)
  then show ?thesis unfolding g4 unfolding n2 unfolding n1 .
qed


lemma body_entry_graph:
  assumes w: "wf_cfg g0"
  shows "add_edge (with_node g0 tx Statement) cnd (new_node g0 tx Statement) lbl =
         g0\<lparr>nodes := nodes g0 @ [\<lparr>nid = next_id g0, content = tx, ntype = Statement\<rparr>],
            edges := edges g0 @ [\<lparr>source = nid cnd, target = next_id g0, condition = lbl\<rparr>],
            next_id := Suc (next_id g0)\<rparr>"
proof -
  have "add_edge (with_node g0 tx Statement) cnd (new_node g0 tx Statement) lbl =
      (with_node g0 tx Statement)\<lparr>edges := edges (with_node g0 tx Statement) @
         [\<lparr>source = nid cnd, target = next_id g0, condition = lbl\<rparr>]\<rparr>"
    using w by (subst add_edge_append) (auto simp: wf_cfg_def)
  then show ?thesis by (simp add: with_node_eq)
qed

lemma body_entry_wf:
  assumes w: "wf_cfg g0" and c: "nid cnd < next_id g0"
  shows "wf_cfg (g0\<lparr>nodes := nodes g0 @ [n],
            edges := edges g0 @ [\<lparr>source = nid cnd, target = next_id g0, condition = lbl\<rparr>],
            next_id := Suc (next_id g0)\<rparr>)"
  using w c by (auto simp: wf_cfg_def less_Suc_eq)

text \<open>What the recursion on a loop body adds, seen from the graph before the entry node.\<close>

lemma body_rec_shape:
  fixes g0 :: cfg and cnd :: node and tx :: string and lbl :: "bool option"
  defines "ent \<equiv> \<lparr>nid = next_id g0, content = tx, ntype = Statement\<rparr>"
  defines "g2 \<equiv> g0\<lparr>nodes := nodes g0 @ [ent],
            edges := edges g0 @ [\<lparr>source = nid cnd, target = next_id g0, condition = lbl\<rparr>],
            next_id := Suc (next_id g0)\<rparr>"
  assumes w: "wf_cfg g0" and c: "nid cnd < next_id g0"
    and rc: "process_code_block depth g2 ent body = Some (g', l)"
  shows "\<exists>ns es. nodes g' = nodes g0 @ [ent] @ ns \<and>
           edges g' = edges g0 @ [\<lparr>source = nid cnd, target = next_id g0, condition = lbl\<rparr>] @ es \<and>
           (\<forall>x \<in> set es. Suc (next_id g0) \<le> target x \<and> next_id g0 \<le> source x)"
    and "wf_cfg g'" and "Suc (next_id g0) \<le> next_id g'" and "nid l < next_id g'"
    and "next_id g0 \<le> nid l"
proof -
  have w2: "wf_cfg g2" unfolding g2_def by (rule body_entry_wf [OF w c])
  have e2: "nid ent < next_id g2" by (simp add: g2_def ent_def)
  note p = process_frame [OF rc w2 e2]
  from p(1) obtain ns es where *: "nodes g' = nodes g2 @ ns" "edges g' = edges g2 @ es"
    "\<forall>x \<in> set es. next_id g2 \<le> target x \<and> (source x = nid ent \<or> next_id g2 \<le> source x)"
    by blast
  have "\<forall>x \<in> set es. Suc (next_id g0) \<le> target x \<and> next_id g0 \<le> source x"
    using *(3) by (auto simp: g2_def ent_def)
  moreover have "nodes g' = nodes g0 @ [ent] @ ns"
    "edges g' = edges g0 @ [\<lparr>source = nid cnd, target = next_id g0, condition = lbl\<rparr>] @ es"
    using *(1,2) by (simp_all add: g2_def)
  ultimately show "\<exists>ns es. nodes g' = nodes g0 @ [ent] @ ns \<and>
           edges g' = edges g0 @ [\<lparr>source = nid cnd, target = next_id g0, condition = lbl\<rparr>] @ es \<and>
           (\<forall>x \<in> set es. Suc (next_id g0) \<le> target x \<and> next_id g0 \<le> source x)"
    by blast
  from p(2) show "wf_cfg g'" .
  from p(3) show "Suc (next_id g0) \<le> next_id g'" by (simp add: g2_def)
  from p(4) show "nid l < next_id g'" .
  from p(5) show "next_id g0 \<le> nid l" by (auto simp: g2_def ent_def)
qed

text \<open>The back edge from the last node of a body to the condition node is a new edge.\<close>

lemma back_edge_graph:
  fixes g0 :: cfg and cnd :: node and tx :: string and lbl :: "bool option"
  defines "ent \<equiv> \<lparr>nid = next_id g0, content = tx, ntype = Statement\<rparr>"
  defines "g2 \<equiv> g0\<lparr>nodes := nodes g0 @ [ent],
            edges := edges g0 @ [\<lparr>source = nid cnd, target = next_id g0, condition = lbl\<rparr>],
            next_id := Suc (next_id g0)\<rparr>"
  assumes w: "wf_cfg g0" and c: "nid cnd < next_id g0"
    and rc: "process_code_block depth g2 ent body = Some (g', l)"
  shows "add_edge g' l cnd None =
           g'\<lparr>edges := edges g' @ [\<lparr>source = nid l, target = nid cnd, condition = None\<rparr>]\<rparr>"
proof -
  note p = body_rec_shape [OF w c rc [unfolded g2_def ent_def]]
  from p(1) obtain ns es where *:
    "edges g' = edges g0 @ [\<lparr>source = nid cnd, target = next_id g0, condition = lbl\<rparr>] @ es"
    "\<forall>x \<in> set es. Suc (next_id g0) \<le> target x \<and> next_id g0 \<le> source x"
    by blast
  have "\<forall>x \<in> set (edges g'). source x \<noteq> nid l \<or> target x \<noteq> nid cnd"
    unfolding *(1) using w c p(5) *(2) by (fastforce simp: wf_cfg_def)
  then show ?thesis by (rule add_edge_append)
qed

lemma while_body_nonempty:
  fixes g0 :: cfg and cnd :: node
  defines "ent \<equiv> \<lparr>nid = next_id g0, content = ''While Loop Body Entry'', ntype = Statement\<rparr>"
  defines "g2 \<equiv> g0\<lparr>nodes := nodes g0 @ [ent],
            edges := edges g0 @ [\<lparr>source = nid cnd, target = next_id g0, condition = Some True\<rparr>],
            next_id := Suc (next_id g0)\<rparr>"
  assumes w: "wf_cfg g0" and c: "nid cnd < next_id g0" and b: "body \<noteq> []"
    and rc: "process_code_block depth g2 ent body = Some (g', l)"
  shows "while_body (process_code_block depth) g0 cnd body =
           Some (g'\<lparr>edges := edges g' @ [\<lparr>source = nid l, target = nid cnd, condition = None\<rparr>]\<rparr>)"
proof -
  have n: "new_node g0 ''While Loop Body Entry'' Statement = ent"
    by (simp add: new_node_eq ent_def)
  have g: "add_edge (with_node g0 ''While Loop Body Entry'' Statement) cnd ent (Some True) = g2"
    using body_entry_graph [OF w, of "''While Loop Body Entry''" cnd "Some True"]
    unfolding n by (simp add: g2_def ent_def)
  have "while_body (process_code_block depth) g0 cnd body = Some (add_edge g' l cnd None)"
    using b rc by (simp add: while_body_def add_node_split n g)
  also have "add_edge g' l cnd None =
           g'\<lparr>edges := edges g' @ [\<lparr>source = nid l, target = nid cnd, condition = None\<rparr>]\<rparr>"
    by (rule back_edge_graph [OF w c rc [unfolded g2_def ent_def]])
  finally show ?thesis .
qed


lemma step_while_paren:
  assumes "startswith line ''while(''" and "strip (lines ! idx st) = line"
  shows "step rec lines st =
           Some (st\<lparr>statement_buffer := statement_buffer st @ [line], idx := idx st + 1\<rparr>)"
proof -
  note sw = assms(1)
  have ne: "line \<noteq> []" "line \<noteq> ''continue;''" "line \<noteq> ''break;''" "line \<noteq> ''{''"
    "line \<noteq> ''}''"
    by (rule startswith_neq [OF sw], simp)+
  have "\<not> startswith line ''if''" "\<not> startswith line ''for''" "\<not> startswith line ''do''"
    "\<not> startswith line ''else''"
    by (rule startswith_other [OF sw]; simp)+
  with ne assms show ?thesis by (simp add: step_def Let_def)
qed

text \<open>
  C3 (amended). The branch for \<open>while\<close> is taken by a token that starts with \<open>while\<close>
  but not with \<open>while(\<close>. A token that starts with \<open>while(\<close> is appended to the statement
  buffer like a plain statement. For a token of the first kind whose condition pattern
  matches, on a well-formed graph: a loop condition node is created behind the current node
  (after the buffer is flushed), a merge node gets a false edge from the condition node, and
  the merge node becomes the current node. With an empty body the condition node gets a true
  edge to itself. With a body, an entry node gets a true edge from the condition node, the
  body is built from the entry node, and when that returns with last node \<open>l\<close>, an edge from
  \<open>l\<close> back to the condition node is appended; the edges the body added end in nodes created
  after the entry node.
\<close>

theorem while_header_is_loop:
  fixes st :: block_state and c :: string and depth :: nat and lines :: "string list"
  defines "line \<equiv> strip (lines ! idx st)"
  defines "s1 \<equiv> flush_buffer st"
  defines "G \<equiv> graph s1"
  defines "cnd \<equiv> \<lparr>nid = next_id G, content = strip c, ntype = LoopCondition\<rparr>"
  defines "mrg \<equiv> \<lparr>nid = next_id G + 1, content = ''After Loop (Merge Node)'', ntype = Merge\<rparr>"
  defines "ent \<equiv> \<lparr>nid = next_id G + 2, content = ''While Loop Body Entry'', ntype = Statement\<rparr>"
  defines "e1 \<equiv> \<lparr>source = nid (current_node s1), target = nid cnd, condition = None\<rparr>"
  defines "e2 \<equiv> \<lparr>source = nid cnd, target = nid mrg, condition = Some False\<rparr>"
  assumes wf: "wf_cfg (graph st)" "nid (current_node st) < next_id (graph st)"
  shows
    "(startswith line ''while('' \<longrightarrow>
        step (process_code_block depth) lines st =
          Some (st\<lparr>statement_buffer := statement_buffer st @ [line], idx := idx st + 1\<rparr>)) \<and>
     (startswith line ''while'' \<and> \<not> startswith line ''while('' \<and> while_match line = Some c \<and>
      extract_loop_body lines (idx st) = (loop_body, next_idx) \<longrightarrow>
        (loop_body = [] \<longrightarrow>
           step (process_code_block depth) lines st =
             Some (s1\<lparr>graph := G\<lparr>nodes := nodes G @ [cnd, mrg],
                       edges := edges G @ [e1, e2,
                         \<lparr>source = nid cnd, target = nid cnd, condition = Some True\<rparr>],
                       next_id := next_id G + 2\<rparr>,
                     current_node := mrg, idx := next_idx\<rparr>)) \<and>
        (loop_body \<noteq> [] \<longrightarrow>
           (\<forall>g' l. process_code_block depth
                      (G\<lparr>nodes := nodes G @ [cnd, mrg, ent],
                         edges := edges G @ [e1, e2,
                           \<lparr>source = nid cnd, target = nid ent, condition = Some True\<rparr>],
                         next_id := next_id G + 3\<rparr>) ent loop_body = Some (g', l) \<longrightarrow>
              step (process_code_block depth) lines st =
                Some (s1\<lparr>graph := g'\<lparr>edges := edges g' @
                            [\<lparr>source = nid l, target = nid cnd, condition = None\<rparr>]\<rparr>,
                        current_node := mrg, idx := next_idx\<rparr>) \<and>
              (\<exists>ns es. nodes g' = nodes G @ [cnd, mrg, ent] @ ns \<and>
                 edges g' = edges G @ [e1, e2,
                   \<lparr>source = nid cnd, target = nid ent, condition = Some True\<rparr>] @ es \<and>
                 (\<forall>x \<in> set es. next_id G + 3 \<le> target x \<and> next_id G + 2 \<le> source x)))))"
proof (intro conjI impI allI; (elim conjE)?)
  assume "startswith line ''while(''"
  then show "step (process_code_block depth) lines st =
          Some (st\<lparr>statement_buffer := statement_buffer st @ [line], idx := idx st + 1\<rparr>)"
    by (rule step_while_paren) (simp add: line_def)
next
  note w = flush_wf [OF wf, folded s1_def G_def]
  define G4 where "G4 = G\<lparr>nodes := nodes G @ [cnd, mrg], edges := edges G @ [e1, e2],
     next_id := next_id G + 2\<rparr>"
  have w4: "wf_cfg G4" and c4: "nid cnd < next_id G4"
    using w by (auto simp: G4_def wf_cfg_def cnd_def mrg_def e1_def e2_def)
  assume sw: "startswith line ''while''" "\<not> startswith line ''while(''"
    and m: "while_match line = Some c"
    and ex: "extract_loop_body lines (idx st) = (loop_body, next_idx)"
  have ld: "strip (lines ! idx st) = line" by (simp add: line_def)
  have st: "step (process_code_block depth) lines st =
      (case while_body (process_code_block depth) G4 cnd loop_body of
         None \<Rightarrow> None
       | Some g \<Rightarrow> Some (s1\<lparr>graph := g, current_node := mrg, idx := next_idx\<rparr>))"
    unfolding step_while [OF sw ld]
    using while_step_shape [OF wf m ex, of "process_code_block depth"]
    by (simp add: G4_def s1_def G_def cnd_def mrg_def e1_def e2_def cong: option.case_cong)
  {
    assume b: "loop_body = []"
    have "\<forall>x \<in> set (edges G4). source x \<noteq> nid cnd \<or> target x \<noteq> nid cnd"
      using w by (auto simp: G4_def wf_cfg_def cnd_def mrg_def e1_def e2_def)
    from add_edge_append [OF this, of "Some True"]
    have "while_body (process_code_block depth) G4 cnd loop_body =
        Some (G4\<lparr>edges := edges G4 @ [\<lparr>source = nid cnd, target = nid cnd, condition = Some True\<rparr>]\<rparr>)"
      using b by (simp add: while_body_def)
    then show "step (process_code_block depth) lines st =
             Some (s1\<lparr>graph := G\<lparr>nodes := nodes G @ [cnd, mrg],
                       edges := edges G @ [e1, e2,
                         \<lparr>source = nid cnd, target = nid cnd, condition = Some True\<rparr>],
                       next_id := next_id G + 2\<rparr>,
                     current_node := mrg, idx := next_idx\<rparr>)"
      unfolding st by (simp add: G4_def)
  }
  {
    fix g' l
    assume b: "loop_body \<noteq> []"
      and rc: "process_code_block depth
                      (G\<lparr>nodes := nodes G @ [cnd, mrg, ent],
                         edges := edges G @ [e1, e2,
                           \<lparr>source = nid cnd, target = nid ent, condition = Some True\<rparr>],
                         next_id := next_id G + 3\<rparr>) ent loop_body = Some (g', l)"
    have g6: "G4\<lparr>nodes := nodes G4 @
               [\<lparr>nid = next_id G4, content = ''While Loop Body Entry'', ntype = Statement\<rparr>],
             edges := edges G4 @ [\<lparr>source = nid cnd, target = next_id G4, condition = Some True\<rparr>],
             next_id := Suc (next_id G4)\<rparr> =
          G\<lparr>nodes := nodes G @ [cnd, mrg, ent],
            edges := edges G @ [e1, e2,
               \<lparr>source = nid cnd, target = nid ent, condition = Some True\<rparr>],
            next_id := next_id G + 3\<rparr>"
      and en: "\<lparr>nid = next_id G4, content = ''While Loop Body Entry'', ntype = Statement\<rparr> = ent"
      by (simp_all add: G4_def ent_def)
    have rc': "process_code_block depth
        (G4\<lparr>nodes := nodes G4 @
               [\<lparr>nid = next_id G4, content = ''While Loop Body Entry'', ntype = Statement\<rparr>],
             edges := edges G4 @ [\<lparr>source = nid cnd, target = next_id G4, condition = Some True\<rparr>],
             next_id := Suc (next_id G4)\<rparr>)
        \<lparr>nid = next_id G4, content = ''While Loop Body Entry'', ntype = Statement\<rparr>
        loop_body = Some (g', l)"
      by (rule rc [unfolded g6 [symmetric], unfolded en [symmetric]])
    from while_body_nonempty [OF w4 c4 b rc']
    show "step (process_code_block depth) lines st =
                Some (s1\<lparr>graph := g'\<lparr>edges := edges g' @
                            [\<lparr>source = nid l, target = nid cnd, condition = None\<rparr>]\<rparr>,
                        current_node := mrg, idx := next_idx\<rparr>)"
      unfolding st by simp
    from body_rec_shape(1) [OF w4 c4 rc']
    obtain ns es where *: "nodes g' = nodes G4 @ [ent] @ ns"
      "edges g' = edges G4 @ [\<lparr>source = nid cnd, target = next_id G4, condition = Some True\<rparr>] @ es"
      "\<forall>x \<in> set es. Suc (next_id G4) \<le> target x \<and> next_id G4 \<le> source x"
      unfolding en by blast
    have "nodes g' = nodes G @ [cnd, mrg, ent] @ ns"
      "edges g' = edges G @ [e1, e2,
                   \<lparr>source = nid cnd, target = nid ent, condition = Some True\<rparr>] @ es"
      "\<forall>x \<in> set es. next_id G + 3 \<le> target x \<and> next_id G + 2 \<le> source x"
      using * by (auto simp: G4_def ent_def)
    then show "\<exists>ns es. nodes g' = nodes G @ [cnd, mrg, ent] @ ns \<and>
                 edges g' = edges G @ [e1, e2,
                   \<lparr>source = nid cnd, target = nid ent, condition = Some True\<rparr>] @ es \<and>
                 (\<forall>x \<in> set es. next_id G + 3 \<le> target x \<and> next_id G + 2 \<le> source x)"
      by blast
  }
qed


lemma step_for:
  assumes "startswith line ''for''" and "strip (lines ! idx st) = line"
  shows "step rec lines st = for_step rec lines st line"
proof -
  note sw = assms(1)
  have ne: "line \<noteq> []" "line \<noteq> ''continue;''" "line \<noteq> ''break;''"
    by (rule startswith_neq [OF sw], simp)+
  have "\<not> startswith line ''if''"
    by (rule startswith_other [OF sw]; simp)
  with ne assms show ?thesis by (simp add: step_def Let_def)
qed

lemma for_init_wf:
  assumes w: "wf_cfg g" and c: "nid cur < next_id g" and fi: "for_init g cur init = (g1, cur1)"
  shows "wf_cfg g1" and "nid cur1 < next_id g1"
proof -
  have f: "frame g (nid cur) g" by (rule frame_refl [OF w c])
  from for_init_frame [OF f c _ fi] show "wf_cfg g1" and "nid cur1 < next_id g1"
    by (simp_all add: inside_def frame_def)
qed

lemma for_init_nonempty:
  assumes w: "wf_cfg g" and i: "init \<noteq> []"
  shows "for_init g cur init =
     (g\<lparr>nodes := nodes g @ [\<lparr>nid = next_id g, content = init, ntype = Statement\<rparr>],
        edges := edges g @ [\<lparr>source = nid cur, target = next_id g, condition = None\<rparr>],
        next_id := Suc (next_id g)\<rparr>,
      \<lparr>nid = next_id g, content = init, ntype = Statement\<rparr>)"
  using i body_entry_graph [OF w, of init cur None]
  by (simp add: for_init_def add_node_split new_node_eq)

lemma for_step_shape:
  fixes st :: block_state and a b c :: string and g1 :: cfg and cur1 :: node
  defines "s1 \<equiv> flush_buffer st"
  defines "cnd \<equiv> \<lparr>nid = next_id g1, content = (if strip b \<noteq> [] then strip b else ''true''),
                   ntype = LoopCondition\<rparr>"
  defines "mrg \<equiv> \<lparr>nid = next_id g1 + 1, content = ''After For Loop (Merge Node)'', ntype = Merge\<rparr>"
  defines "G5 \<equiv> g1\<lparr>nodes := nodes g1 @ [cnd, mrg],
           edges := edges g1 @ [\<lparr>source = nid cur1, target = next_id g1, condition = None\<rparr>,
                              \<lparr>source = next_id g1, target = next_id g1 + 1, condition = Some False\<rparr>],
           next_id := next_id g1 + 2\<rparr>"
  assumes wf: "wf_cfg (graph st)" "nid (current_node st) < next_id (graph st)"
    and m: "for_match line = Some (a, b, c)"
    and ex: "extract_loop_body lines (idx st) = (loop_body, next_idx)"
    and fi: "for_init (graph s1) (current_node s1) (strip a) = (g1, cur1)"
  shows "for_step rec lines st line =
           (case for_body rec G5 cnd (strip c) loop_body of
              None \<Rightarrow> None
            | Some g \<Rightarrow> Some (s1\<lparr>graph := g, current_node := mrg, idx := next_idx\<rparr>))"
proof -
  note w = flush_wf [OF wf, folded s1_def]
  note w1 = for_init_wf [OF w fi]
  let ?ce = "if strip b \<noteq> [] then strip b else ''true''"
  let ?mt = "''After For Loop (Merge Node)''"
  have g5: "add_edge (with_node (add_edge (with_node g1 ?ce LoopCondition) cur1
             (new_node g1 ?ce LoopCondition) None) ?mt Merge)
           (new_node g1 ?ce LoopCondition)
           (new_node (add_edge (with_node g1 ?ce LoopCondition) cur1
             (new_node g1 ?ce LoopCondition) None) ?mt Merge) (Some False) = G5"
    unfolding G5_def cnd_def mrg_def by (rule loop_head_graph [OF w1])
  have n1: "new_node g1 ?ce LoopCondition = cnd"
    by (simp add: new_node_eq cnd_def)
  have n2: "new_node (add_edge (with_node g1 ?ce LoopCondition) cur1
             (new_node g1 ?ce LoopCondition) None) ?mt Merge = mrg"
    by (simp add: new_node_eq mrg_def)
  have "for_step rec lines st line =
     (case for_body rec
        (add_edge (with_node (add_edge (with_node g1 ?ce LoopCondition) cur1
             (new_node g1 ?ce LoopCondition) None) ?mt Merge)
           (new_node g1 ?ce LoopCondition)
           (new_node (add_edge (with_node g1 ?ce LoopCondition) cur1
             (new_node g1 ?ce LoopCondition) None) ?mt Merge) (Some False))
        (new_node g1 ?ce LoopCondition) (strip c) loop_body of
        None \<Rightarrow> None
      | Some g \<Rightarrow> Some (s1\<lparr>graph := g,
          current_node := new_node (add_edge (with_node g1 ?ce LoopCondition) cur1
             (new_node g1 ?ce LoopCondition) None) ?mt Merge,
          idx := next_idx\<rparr>))"
    unfolding for_step_def Let_def add_node_split s1_def [symmetric]
    using m ex fi by (simp add: s1_def split: option.splits)
  then show ?thesis unfolding g5 unfolding n2 unfolding n1 .
qed

lemma for_body_nonempty:
  fixes g0 :: cfg and cnd :: node
  defines "ent \<equiv> \<lparr>nid = next_id g0, content = ''For Loop Body Entry'', ntype = Statement\<rparr>"
  defines "g2 \<equiv> g0\<lparr>nodes := nodes g0 @ [ent],
            edges := edges g0 @ [\<lparr>source = nid cnd, target = next_id g0, condition = Some True\<rparr>],
            next_id := Suc (next_id g0)\<rparr>"
  assumes w: "wf_cfg g0" and c: "nid cnd < next_id g0" and b: "body \<noteq> []" and u: "upd \<noteq> []"
    and rc: "process_code_block depth g2 ent body = Some (g', l)"
  shows "for_body (process_code_block depth) g0 cnd upd body =
           Some (g'\<lparr>nodes := nodes g' @ [\<lparr>nid = next_id g', content = upd, ntype = Statement\<rparr>],
                    edges := edges g' @ [\<lparr>source = nid l, target = next_id g', condition = None\<rparr>,
                                         \<lparr>source = next_id g', target = nid cnd, condition = None\<rparr>],
                    next_id := Suc (next_id g')\<rparr>)"
proof -
  have n: "new_node g0 ''For Loop Body Entry'' Statement = ent"
    by (simp add: new_node_eq ent_def)
  have g: "add_edge (with_node g0 ''For Loop Body Entry'' Statement) cnd ent (Some True) = g2"
    using body_entry_graph [OF w, of "''For Loop Body Entry''" cnd "Some True"]
    unfolding n by (simp add: g2_def ent_def)
  note p = body_rec_shape [OF w c rc [unfolded g2_def ent_def]]
  let ?u = "new_node g' upd Statement"
  let ?g4 = "add_edge (with_node g' upd Statement) l ?u None"
  have 4: "?g4 = g'\<lparr>nodes := nodes g' @ [\<lparr>nid = next_id g', content = upd, ntype = Statement\<rparr>],
            edges := edges g' @ [\<lparr>source = nid l, target = next_id g', condition = None\<rparr>],
            next_id := Suc (next_id g')\<rparr>"
    by (rule body_entry_graph [OF p(2)])
  have "\<forall>x \<in> set (edges ?g4). source x \<noteq> nid ?u \<or> target x \<noteq> nid cnd"
    unfolding 4 using p(2,4) by (auto simp: wf_cfg_def)
  from add_edge_append [OF this, of None]
  have 5: "add_edge ?g4 ?u cnd None =
      g'\<lparr>nodes := nodes g' @ [\<lparr>nid = next_id g', content = upd, ntype = Statement\<rparr>],
                    edges := edges g' @ [\<lparr>source = nid l, target = next_id g', condition = None\<rparr>,
                                         \<lparr>source = next_id g', target = nid cnd, condition = None\<rparr>],
                    next_id := Suc (next_id g')\<rparr>"
    unfolding 4 by simp
  have "for_body (process_code_block depth) g0 cnd upd body = Some (add_edge ?g4 ?u cnd None)"
    using b u rc by (simp add: for_body_def add_node_split n g)
  then show ?thesis unfolding 5 .
qed

lemma for_body_nodes:
  assumes w: "wf_cfg g0" and c: "nid cnd < next_id g0"
    and p: "for_body (process_code_block depth) g0 cnd upd body = Some g1"
  shows "\<exists>ns. nodes g1 = nodes g0 @ ns"
proof (cases "body = []")
  case True
  with p show ?thesis
    by (auto simp: for_body_def add_node_split split: if_splits)
next
  case False
  let ?ent = "new_node g0 ''For Loop Body Entry'' Statement"
  let ?g2 = "add_edge (with_node g0 ''For Loop Body Entry'' Statement) cnd ?ent (Some True)"
  from False p obtain g3 l where rc: "process_code_block depth ?g2 ?ent body = Some (g3, l)"
    and g1: "nodes g1 = nodes g3 \<or> nodes g1 = nodes g3 @ [new_node g3 upd Statement]"
    by (auto simp: for_body_def add_node_split split: option.splits if_splits)
  have w2: "wf_cfg ?g2"
    unfolding body_entry_graph [OF w] by (rule body_entry_wf [OF w c])
  from process_frame(1) [OF rc w2] obtain ns where "nodes g3 = nodes ?g2 @ ns"
    by auto
  with g1 show ?thesis by auto
qed


text \<open>
  C7 (amended). For a token that starts with \<open>for\<close> and matches the header pattern (the
  dot of the pattern matches no line feed), on a well-formed graph. When the three clauses and
  the body are not empty and building the body returns, the
  step creates an init statement node behind the current node, a loop condition node behind
  it, a merge node and a body entry node; the only edges that leave the condition node are one
  false edge to the merge node and one true edge to the entry node; after the body, an update
  node is created with an edge from the last node of the body and an edge back to the condition
  node; the merge node becomes the current node. When the condition clause is empty and the
  step returns, the loop condition node the step creates has the content \<open>true\<close>.
\<close>

theorem for_header_builds_loop:
  fixes st :: block_state and a b c :: string and depth :: nat and lines :: "string list"
  defines "line \<equiv> strip (lines ! idx st)"
  defines "s1 \<equiv> flush_buffer st"
  defines "G \<equiv> graph s1"
  defines "init \<equiv> \<lparr>nid = next_id G, content = strip a, ntype = Statement\<rparr>"
  defines "cnd \<equiv> \<lparr>nid = next_id G + 1, content = (if strip b \<noteq> [] then strip b else ''true''),
                   ntype = LoopCondition\<rparr>"
  defines "mrg \<equiv> \<lparr>nid = next_id G + 2, content = ''After For Loop (Merge Node)'', ntype = Merge\<rparr>"
  defines "ent \<equiv> \<lparr>nid = next_id G + 3, content = ''For Loop Body Entry'', ntype = Statement\<rparr>"
  defines "head \<equiv> [\<lparr>source = nid (current_node s1), target = nid init, condition = None\<rparr>,
                    \<lparr>source = nid init, target = nid cnd, condition = None\<rparr>,
                    \<lparr>source = nid cnd, target = nid mrg, condition = Some False\<rparr>,
                    \<lparr>source = nid cnd, target = nid ent, condition = Some True\<rparr>]"
  assumes wf: "wf_cfg (graph st)" "nid (current_node st) < next_id (graph st)"
  shows
    "startswith line ''for'' \<and> for_match line = Some (a, b, c) \<and>
     extract_loop_body lines (idx st) = (loop_body, next_idx) \<longrightarrow>
       (strip a \<noteq> [] \<and> strip c \<noteq> [] \<and> loop_body \<noteq> [] \<longrightarrow>
          (\<forall>g' l. process_code_block depth
                     (G\<lparr>nodes := nodes G @ [init, cnd, mrg, ent], edges := edges G @ head,
                        next_id := next_id G + 4\<rparr>) ent loop_body = Some (g', l) \<longrightarrow>
             (\<exists>st' ns es.
                step (process_code_block depth) lines st = Some st' \<and>
                current_node st' = mrg \<and> idx st' = next_idx \<and>
                nodes (graph st') = nodes G @ [init, cnd, mrg, ent] @ ns @
                  [\<lparr>nid = next_id g', content = strip c, ntype = Statement\<rparr>] \<and>
                edges (graph st') = edges G @ head @ es @
                  [\<lparr>source = nid l, target = next_id g', condition = None\<rparr>,
                   \<lparr>source = next_id g', target = nid cnd, condition = None\<rparr>] \<and>
                nodes g' = nodes G @ [init, cnd, mrg, ent] @ ns \<and>
                edges g' = edges G @ head @ es \<and>
                (\<forall>x \<in> set es. next_id G + 4 \<le> target x \<and> next_id G + 3 \<le> source x) \<and>
                [x \<leftarrow> edges (graph st'). source x = nid cnd] =
                  [\<lparr>source = nid cnd, target = nid mrg, condition = Some False\<rparr>,
                   \<lparr>source = nid cnd, target = nid ent, condition = Some True\<rparr>]))) \<and>
       (strip b = [] \<longrightarrow>
          (\<forall>st'. step (process_code_block depth) lines st = Some st' \<longrightarrow>
             (\<exists>ns. nodes (graph st') =
                nodes G @ (if strip a \<noteq> [] then [init] else []) @
                [\<lparr>nid = next_id G + (if strip a \<noteq> [] then 1 else 0), content = ''true'',
                  ntype = LoopCondition\<rparr>] @ ns)))"
proof (intro conjI impI allI; (elim conjE)?)
  note w = flush_wf [OF wf, folded s1_def G_def]
  have ld: "strip (lines ! idx st) = line" by (simp add: line_def)
  assume sw: "startswith line ''for''" and m: "for_match line = Some (a, b, c)"
    and ex: "extract_loop_body lines (idx st) = (loop_body, next_idx)"
  {
    fix g' l
    assume a: "strip a \<noteq> []" and u: "strip c \<noteq> []" and b: "loop_body \<noteq> []"
      and rc: "process_code_block depth
                     (G\<lparr>nodes := nodes G @ [init, cnd, mrg, ent], edges := edges G @ head,
                        next_id := next_id G + 4\<rparr>) ent loop_body = Some (g', l)"
    define g1 where "g1 = G\<lparr>nodes := nodes G @ [init],
        edges := edges G @ [\<lparr>source = nid (current_node s1), target = next_id G, condition = None\<rparr>],
        next_id := Suc (next_id G)\<rparr>"
    have fi: "for_init (graph s1) (current_node s1) (strip a) = (g1, init)"
      using for_init_nonempty [OF w(1) a, of "current_node s1"]
      by (simp add: g1_def init_def G_def)
    define G5 where "G5 = g1\<lparr>nodes := nodes g1 @ [cnd, mrg],
        edges := edges g1 @ [\<lparr>source = nid init, target = next_id g1, condition = None\<rparr>,
                            \<lparr>source = next_id g1, target = next_id g1 + 1, condition = Some False\<rparr>],
        next_id := next_id g1 + 2\<rparr>"
    have cn: "\<lparr>nid = next_id g1, content = (if strip b \<noteq> [] then strip b else ''true''),
           ntype = LoopCondition\<rparr> = cnd"
      and mn: "\<lparr>nid = next_id g1 + 1, content = ''After For Loop (Merge Node)'', ntype = Merge\<rparr> = mrg"
      by (simp_all add: g1_def cnd_def mrg_def)
    have st: "step (process_code_block depth) lines st =
      (case for_body (process_code_block depth) G5 cnd (strip c) loop_body of
         None \<Rightarrow> None
       | Some g \<Rightarrow> Some (s1\<lparr>graph := g, current_node := mrg, idx := next_idx\<rparr>))"
      unfolding step_for [OF sw ld]
      using for_step_shape [OF wf m ex fi [unfolded s1_def], of "process_code_block depth"]
      unfolding cn mn G5_def [symmetric] s1_def [symmetric] .
    have w5: "wf_cfg G5" and c5: "nid cnd < next_id G5"
      using w by (auto simp: G5_def g1_def wf_cfg_def cnd_def init_def)
    have g7: "G5\<lparr>nodes := nodes G5 @
               [\<lparr>nid = next_id G5, content = ''For Loop Body Entry'', ntype = Statement\<rparr>],
             edges := edges G5 @ [\<lparr>source = nid cnd, target = next_id G5, condition = Some True\<rparr>],
             next_id := Suc (next_id G5)\<rparr> =
          G\<lparr>nodes := nodes G @ [init, cnd, mrg, ent], edges := edges G @ head,
            next_id := next_id G + 4\<rparr>"
      and en: "\<lparr>nid = next_id G5, content = ''For Loop Body Entry'', ntype = Statement\<rparr> = ent"
      by (simp_all add: G5_def g1_def ent_def cnd_def mrg_def init_def head_def)
    have rc': "process_code_block depth
        (G5\<lparr>nodes := nodes G5 @
               [\<lparr>nid = next_id G5, content = ''For Loop Body Entry'', ntype = Statement\<rparr>],
             edges := edges G5 @ [\<lparr>source = nid cnd, target = next_id G5, condition = Some True\<rparr>],
             next_id := Suc (next_id G5)\<rparr>)
        \<lparr>nid = next_id G5, content = ''For Loop Body Entry'', ntype = Statement\<rparr>
        loop_body = Some (g', l)"
      by (rule rc [unfolded g7 [symmetric], unfolded en [symmetric]])
    let ?fin = "g'\<lparr>nodes := nodes g' @ [\<lparr>nid = next_id g', content = strip c, ntype = Statement\<rparr>],
                    edges := edges g' @ [\<lparr>source = nid l, target = next_id g', condition = None\<rparr>,
                                         \<lparr>source = next_id g', target = nid cnd, condition = None\<rparr>],
                    next_id := Suc (next_id g')\<rparr>"
    let ?st' = "s1\<lparr>graph := ?fin, current_node := mrg, idx := next_idx\<rparr>"
    from for_body_nonempty [OF w5 c5 b u rc']
    have s: "step (process_code_block depth) lines st = Some ?st'"
      unfolding st by simp
    note p = body_rec_shape [OF w5 c5 rc']
    from p(1) obtain ns es where *: "nodes g' = nodes G5 @ [ent] @ ns"
      "edges g' = edges G5 @ [\<lparr>source = nid cnd, target = next_id G5, condition = Some True\<rparr>] @ es"
      "\<forall>x \<in> set es. Suc (next_id G5) \<le> target x \<and> next_id G5 \<le> source x"
      unfolding en by blast
    have n: "nodes g' = nodes G @ [init, cnd, mrg, ent] @ ns"
      and e: "edges g' = edges G @ head @ es"
      and b3: "\<forall>x \<in> set es. next_id G + 4 \<le> target x \<and> next_id G + 3 \<le> source x"
      using * by (auto simp: G5_def g1_def ent_def cnd_def mrg_def init_def head_def)
    have nl: "next_id G + 3 \<le> nid l" "next_id G + 4 \<le> next_id g'"
      using p(3,5) by (simp_all add: G5_def g1_def)
    have f0: "[x \<leftarrow> edges G. source x = Suc (next_id G)] = []"
      using w(1) by (auto simp: filter_empty_conv wf_cfg_def)
    have f1: "[x \<leftarrow> es. source x = Suc (next_id G)] = []"
      using b3 by (auto simp: filter_empty_conv)
    have flt: "[x \<leftarrow> edges (graph ?st'). source x = nid cnd] =
                  [\<lparr>source = nid cnd, target = nid mrg, condition = Some False\<rparr>,
                   \<lparr>source = nid cnd, target = nid ent, condition = Some True\<rparr>]"
      using w(2) nl by (simp add: e f0 f1 head_def cnd_def init_def)
    show "\<exists>st' ns es.
                step (process_code_block depth) lines st = Some st' \<and>
                current_node st' = mrg \<and> idx st' = next_idx \<and>
                nodes (graph st') = nodes G @ [init, cnd, mrg, ent] @ ns @
                  [\<lparr>nid = next_id g', content = strip c, ntype = Statement\<rparr>] \<and>
                edges (graph st') = edges G @ head @ es @
                  [\<lparr>source = nid l, target = next_id g', condition = None\<rparr>,
                   \<lparr>source = next_id g', target = nid cnd, condition = None\<rparr>] \<and>
                nodes g' = nodes G @ [init, cnd, mrg, ent] @ ns \<and>
                edges g' = edges G @ head @ es \<and>
                (\<forall>x \<in> set es. next_id G + 4 \<le> target x \<and> next_id G + 3 \<le> source x) \<and>
                [x \<leftarrow> edges (graph st'). source x = nid cnd] =
                  [\<lparr>source = nid cnd, target = nid mrg, condition = Some False\<rparr>,
                   \<lparr>source = nid cnd, target = nid ent, condition = Some True\<rparr>]"
      apply (rule exI [of _ ?st'], rule exI [of _ ns], rule exI [of _ es])
      using s n e b3 flt by simp
  }
  {
    fix st'
    assume eb: "strip b = []" and s: "step (process_code_block depth) lines st = Some st'"
    obtain g1 cur1 where fi: "for_init (graph s1) (current_node s1) (strip a) = (g1, cur1)"
      by (cases "for_init (graph s1) (current_node s1) (strip a)") auto
    note w1 = for_init_wf [OF w [unfolded G_def] fi]
    have n1: "nodes g1 = nodes G @ (if strip a \<noteq> [] then [init] else [])"
      and i1: "next_id g1 = next_id G + (if strip a \<noteq> [] then 1 else 0)"
      using fi by (auto simp: for_init_def add_node_split new_node_eq init_def G_def)
    define cnd' where "cnd' = \<lparr>nid = next_id g1, content = (if strip b \<noteq> [] then strip b else ''true''),
                   ntype = LoopCondition\<rparr>"
    define G5 where "G5 = g1\<lparr>nodes := nodes g1 @ [cnd',
          \<lparr>nid = next_id g1 + 1, content = ''After For Loop (Merge Node)'', ntype = Merge\<rparr>],
        edges := edges g1 @ [\<lparr>source = nid cur1, target = next_id g1, condition = None\<rparr>,
                            \<lparr>source = next_id g1, target = next_id g1 + 1, condition = Some False\<rparr>],
        next_id := next_id g1 + 2\<rparr>"
    from s for_step_shape [OF wf m ex fi [unfolded s1_def], of "process_code_block depth"]
    obtain g6 where fb: "for_body (process_code_block depth) G5 cnd' (strip c) loop_body = Some g6"
      and g6: "graph st' = g6"
      unfolding step_for [OF sw ld] cnd'_def [symmetric] G5_def [symmetric]
      by (auto split: option.splits)
    have w5: "wf_cfg G5" and c5: "nid cnd' < next_id G5"
      using w1 by (auto simp: G5_def wf_cfg_def cnd'_def)
    from for_body_nodes [OF w5 c5 fb] obtain ns where "nodes g6 = nodes G5 @ ns" by blast
    then have "nodes (graph st') =
                nodes G @ (if strip a \<noteq> [] then [init] else []) @
                [\<lparr>nid = next_id G + (if strip a \<noteq> [] then 1 else 0), content = ''true'',
                  ntype = LoopCondition\<rparr>] @
                (\<lparr>nid = next_id g1 + 1, content = ''After For Loop (Merge Node)'', ntype = Merge\<rparr> # ns)"
      using eb by (simp add: g6 G5_def n1 i1 cnd'_def)
    then show "\<exists>ns. nodes (graph st') =
                nodes G @ (if strip a \<noteq> [] then [init] else []) @
                [\<lparr>nid = next_id G + (if strip a \<noteq> [] then 1 else 0), content = ''true'',
                  ntype = LoopCondition\<rparr>] @ ns"
      by (rule exI)
  }
qed


theorem while_header_is_loop_witness:
  "step (process_code_block 1) [''while (x < 5)'', ''{'', ''x++;'', ''}'']
     \<lparr>graph = \<lparr>nodes = [\<lparr>nid = 0, content = ''START'', ntype = Start\<rparr>,
                         \<lparr>nid = 1, content = ''void f() {'', ntype = Statement\<rparr>],
                edges = [\<lparr>source = 0, target = 1, condition = None\<rparr>], next_id = 2\<rparr>,
      current_node = \<lparr>nid = 1, content = ''void f() {'', ntype = Statement\<rparr>,
      idx = 0, statement_buffer = [], loop_stack = []\<rparr> =
   Some \<lparr>graph = \<lparr>nodes = [\<lparr>nid = 0, content = ''START'', ntype = Start\<rparr>,
                         \<lparr>nid = 1, content = ''void f() {'', ntype = Statement\<rparr>,
                         \<lparr>nid = 2, content = ''x < 5'', ntype = LoopCondition\<rparr>,
                         \<lparr>nid = 3, content = ''After Loop (Merge Node)'', ntype = Merge\<rparr>,
                         \<lparr>nid = 4, content = ''While Loop Body Entry'', ntype = Statement\<rparr>,
                         \<lparr>nid = 5, content = ''x++;'', ntype = Statement\<rparr>],
                edges = [\<lparr>source = 0, target = 1, condition = None\<rparr>,
                         \<lparr>source = 1, target = 2, condition = None\<rparr>,
                         \<lparr>source = 2, target = 3, condition = Some False\<rparr>,
                         \<lparr>source = 2, target = 4, condition = Some True\<rparr>,
                         \<lparr>source = 4, target = 5, condition = None\<rparr>,
                         \<lparr>source = 5, target = 2, condition = None\<rparr>], next_id = 6\<rparr>,
      current_node = \<lparr>nid = 3, content = ''After Loop (Merge Node)'', ntype = Merge\<rparr>,
      idx = 4, statement_buffer = [], loop_stack = []\<rparr>"
proof -
  let ?lines = "[''while (x < 5)'', ''{'', ''x++;'', ''}'']"
  let ?g = "\<lparr>nodes = [\<lparr>nid = 0, content = ''START'', ntype = Start\<rparr>,
                         \<lparr>nid = 1, content = ''void f() {'', ntype = Statement\<rparr>],
                edges = [\<lparr>source = 0, target = 1, condition = None\<rparr>], next_id = 2\<rparr>"
  let ?st = "\<lparr>graph = ?g,
      current_node = \<lparr>nid = 1, content = ''void f() {'', ntype = Statement\<rparr>,
      idx = 0, statement_buffer = [], loop_stack = []\<rparr>"
  have h1: "wf_cfg (graph ?st)" by (simp add: wf_cfg_def)
  have h2: "nid (current_node ?st) < next_id (graph ?st)" by simp
  have fl: "flush_buffer ?st = ?st" by (simp add: flush_buffer_def)
  have l: "strip (?lines ! idx ?st) = ''while (x < 5)''" by code_simp
  have h3: "startswith ''while (x < 5)'' ''while''" "\<not> startswith ''while (x < 5)'' ''while(''"
    by code_simp+
  have h4: "while_match ''while (x < 5)'' = Some ''x < 5''" by code_simp
  have h5: "extract_loop_body ?lines 0 = (''x++;'', 4)" by code_simp
  have s: "strip ''x < 5'' = ''x < 5''" by code_simp
  have rc: "process_code_block 1
     \<lparr>nodes = [\<lparr>nid = 0, content = ''START'', ntype = Start\<rparr>,
                         \<lparr>nid = 1, content = ''void f() {'', ntype = Statement\<rparr>,
                         \<lparr>nid = 2, content = ''x < 5'', ntype = LoopCondition\<rparr>,
                         \<lparr>nid = 3, content = ''After Loop (Merge Node)'', ntype = Merge\<rparr>,
                         \<lparr>nid = 4, content = ''While Loop Body Entry'', ntype = Statement\<rparr>],
                edges = [\<lparr>source = 0, target = 1, condition = None\<rparr>,
                         \<lparr>source = 1, target = 2, condition = None\<rparr>,
                         \<lparr>source = 2, target = 3, condition = Some False\<rparr>,
                         \<lparr>source = 2, target = 4, condition = Some True\<rparr>], next_id = 5\<rparr>
     \<lparr>nid = 4, content = ''While Loop Body Entry'', ntype = Statement\<rparr> ''x++;'' =
     Some (\<lparr>nodes = [\<lparr>nid = 0, content = ''START'', ntype = Start\<rparr>,
                         \<lparr>nid = 1, content = ''void f() {'', ntype = Statement\<rparr>,
                         \<lparr>nid = 2, content = ''x < 5'', ntype = LoopCondition\<rparr>,
                         \<lparr>nid = 3, content = ''After Loop (Merge Node)'', ntype = Merge\<rparr>,
                         \<lparr>nid = 4, content = ''While Loop Body Entry'', ntype = Statement\<rparr>,
                         \<lparr>nid = 5, content = ''x++;'', ntype = Statement\<rparr>],
                edges = [\<lparr>source = 0, target = 1, condition = None\<rparr>,
                         \<lparr>source = 1, target = 2, condition = None\<rparr>,
                         \<lparr>source = 2, target = 3, condition = Some False\<rparr>,
                         \<lparr>source = 2, target = 4, condition = Some True\<rparr>,
                         \<lparr>source = 4, target = 5, condition = None\<rparr>], next_id = 6\<rparr>,
           \<lparr>nid = 5, content = ''x++;'', ntype = Statement\<rparr>)"
    by code_simp
  from while_header_is_loop [OF h1 h2, where lines = ?lines and c = "''x < 5''"
      and loop_body = "''x++;''" and next_idx = 4 and depth = 1]
  show ?thesis
    unfolding fl l using h3 h4 h5 rc by (simp add: s)
qed


theorem for_header_builds_loop_witness:
  "(\<exists>st'. step (process_code_block 1) [''for (int i = 0; i < 10; i++)'', ''{'', ''sum += i;'', ''}'']
       \<lparr>graph = \<lparr>nodes = [\<lparr>nid = 0, content = ''START'', ntype = Start\<rparr>,
                           \<lparr>nid = 1, content = ''void f() {'', ntype = Statement\<rparr>],
                  edges = [\<lparr>source = 0, target = 1, condition = None\<rparr>], next_id = 2\<rparr>,
        current_node = \<lparr>nid = 1, content = ''void f() {'', ntype = Statement\<rparr>,
        idx = 0, statement_buffer = [], loop_stack = []\<rparr> = Some st' \<and>
      current_node st' = \<lparr>nid = 4, content = ''After For Loop (Merge Node)'', ntype = Merge\<rparr> \<and>
      nodes (graph st') =
        [\<lparr>nid = 0, content = ''START'', ntype = Start\<rparr>,
         \<lparr>nid = 1, content = ''void f() {'', ntype = Statement\<rparr>,
         \<lparr>nid = 2, content = ''int i = 0'', ntype = Statement\<rparr>,
         \<lparr>nid = 3, content = ''i < 10'', ntype = LoopCondition\<rparr>,
         \<lparr>nid = 4, content = ''After For Loop (Merge Node)'', ntype = Merge\<rparr>,
         \<lparr>nid = 5, content = ''For Loop Body Entry'', ntype = Statement\<rparr>,
         \<lparr>nid = 6, content = ''sum += i;'', ntype = Statement\<rparr>,
         \<lparr>nid = 7, content = ''i++'', ntype = Statement\<rparr>] \<and>
      [x \<leftarrow> edges (graph st'). source x = 3] =
        [\<lparr>source = 3, target = 4, condition = Some False\<rparr>,
         \<lparr>source = 3, target = 5, condition = Some True\<rparr>]) \<and>
   (\<exists>st' ns. step (process_code_block 1) [''for (;;)'', ''{'', ''}'']
       \<lparr>graph = \<lparr>nodes = [\<lparr>nid = 0, content = ''START'', ntype = Start\<rparr>,
                           \<lparr>nid = 1, content = ''void f() {'', ntype = Statement\<rparr>],
                  edges = [\<lparr>source = 0, target = 1, condition = None\<rparr>], next_id = 2\<rparr>,
        current_node = \<lparr>nid = 1, content = ''void f() {'', ntype = Statement\<rparr>,
        idx = 0, statement_buffer = [], loop_stack = []\<rparr> = Some st' \<and>
      nodes (graph st') =
        [\<lparr>nid = 0, content = ''START'', ntype = Start\<rparr>,
         \<lparr>nid = 1, content = ''void f() {'', ntype = Statement\<rparr>,
         \<lparr>nid = 2, content = ''true'', ntype = LoopCondition\<rparr>] @ ns)"
proof -
  let ?lines = "[''for (int i = 0; i < 10; i++)'', ''{'', ''sum += i;'', ''}'']"
  let ?lines2 = "[''for (;;)'', ''{'', ''}'']"
  let ?g = "\<lparr>nodes = [\<lparr>nid = 0, content = ''START'', ntype = Start\<rparr>,
                         \<lparr>nid = 1, content = ''void f() {'', ntype = Statement\<rparr>],
                edges = [\<lparr>source = 0, target = 1, condition = None\<rparr>], next_id = 2\<rparr>"
  let ?st = "\<lparr>graph = ?g,
      current_node = \<lparr>nid = 1, content = ''void f() {'', ntype = Statement\<rparr>,
      idx = 0, statement_buffer = [], loop_stack = []\<rparr>"
  have h1: "wf_cfg (graph ?st)" by (simp add: wf_cfg_def)
  have h2: "nid (current_node ?st) < next_id (graph ?st)" by simp
  have fl: "flush_buffer ?st = ?st" by (simp add: flush_buffer_def)
  have l: "strip (?lines ! idx ?st) = ''for (int i = 0; i < 10; i++)''" by code_simp
  have h3: "startswith ''for (int i = 0; i < 10; i++)'' ''for''" by code_simp
  have h4: "for_match ''for (int i = 0; i < 10; i++)'' = Some (''int i = 0'', '' i < 10'', '' i++'')"
    by code_simp
  have h5: "extract_loop_body ?lines 0 = (''sum += i;'', 4)" by code_simp
  have s: "strip ''int i = 0'' = ''int i = 0''" "strip '' i < 10'' = ''i < 10''"
    "strip '' i++'' = ''i++''" by code_simp+
  have rc: "process_code_block 1
     \<lparr>nodes = [\<lparr>nid = 0, content = ''START'', ntype = Start\<rparr>,
               \<lparr>nid = 1, content = ''void f() {'', ntype = Statement\<rparr>,
               \<lparr>nid = 2, content = ''int i = 0'', ntype = Statement\<rparr>,
               \<lparr>nid = 3, content = ''i < 10'', ntype = LoopCondition\<rparr>,
               \<lparr>nid = 4, content = ''After For Loop (Merge Node)'', ntype = Merge\<rparr>,
               \<lparr>nid = 5, content = ''For Loop Body Entry'', ntype = Statement\<rparr>],
       edges = [\<lparr>source = 0, target = 1, condition = None\<rparr>,
                \<lparr>source = 1, target = 2, condition = None\<rparr>,
                \<lparr>source = 2, target = 3, condition = None\<rparr>,
                \<lparr>source = 3, target = 4, condition = Some False\<rparr>,
                \<lparr>source = 3, target = 5, condition = Some True\<rparr>], next_id = 6\<rparr>
     \<lparr>nid = 5, content = ''For Loop Body Entry'', ntype = Statement\<rparr> ''sum += i;'' =
     Some (\<lparr>nodes = [\<lparr>nid = 0, content = ''START'', ntype = Start\<rparr>,
               \<lparr>nid = 1, content = ''void f() {'', ntype = Statement\<rparr>,
               \<lparr>nid = 2, content = ''int i = 0'', ntype = Statement\<rparr>,
               \<lparr>nid = 3, content = ''i < 10'', ntype = LoopCondition\<rparr>,
               \<lparr>nid = 4, content = ''After For Loop (Merge Node)'', ntype = Merge\<rparr>,
               \<lparr>nid = 5, content = ''For Loop Body Entry'', ntype = Statement\<rparr>,
               \<lparr>nid = 6, content = ''sum += i;'', ntype = Statement\<rparr>],
       edges = [\<lparr>source = 0, target = 1, condition = None\<rparr>,
                \<lparr>source = 1, target = 2, condition = None\<rparr>,
                \<lparr>source = 2, target = 3, condition = None\<rparr>,
                \<lparr>source = 3, target = 4, condition = Some False\<rparr>,
                \<lparr>source = 3, target = 5, condition = Some True\<rparr>,
                \<lparr>source = 5, target = 6, condition = None\<rparr>], next_id = 7\<rparr>,
           \<lparr>nid = 6, content = ''sum += i;'', ntype = Statement\<rparr>)"
    by code_simp
  from for_header_builds_loop [OF h1 h2, where lines = ?lines and a = "''int i = 0''"
      and b = "'' i < 10''" and c = "'' i++''" and loop_body = "''sum += i;''"
      and next_idx = 4 and depth = 1]
  have 1: "\<exists>st'. step (process_code_block 1) ?lines ?st = Some st' \<and>
      current_node st' = \<lparr>nid = 4, content = ''After For Loop (Merge Node)'', ntype = Merge\<rparr> \<and>
      nodes (graph st') =
        [\<lparr>nid = 0, content = ''START'', ntype = Start\<rparr>,
         \<lparr>nid = 1, content = ''void f() {'', ntype = Statement\<rparr>,
         \<lparr>nid = 2, content = ''int i = 0'', ntype = Statement\<rparr>,
         \<lparr>nid = 3, content = ''i < 10'', ntype = LoopCondition\<rparr>,
         \<lparr>nid = 4, content = ''After For Loop (Merge Node)'', ntype = Merge\<rparr>,
         \<lparr>nid = 5, content = ''For Loop Body Entry'', ntype = Statement\<rparr>,
         \<lparr>nid = 6, content = ''sum += i;'', ntype = Statement\<rparr>,
         \<lparr>nid = 7, content = ''i++'', ntype = Statement\<rparr>] \<and>
      [x \<leftarrow> edges (graph st'). source x = 3] =
        [\<lparr>source = 3, target = 4, condition = Some False\<rparr>,
         \<lparr>source = 3, target = 5, condition = Some True\<rparr>]"
    unfolding fl l using h3 h4 h5 rc by (simp add: s) fastforce
  have l2: "strip (?lines2 ! idx ?st) = ''for (;;)''" by code_simp
  have k3: "startswith ''for (;;)'' ''for''" by code_simp
  have k4: "for_match ''for (;;)'' = Some ([], [], [])" by code_simp
  have k5: "extract_loop_body ?lines2 0 = ([], 3)" by code_simp
  have k6: "strip [] = []" by code_simp
  have k7: "step (process_code_block 1) ?lines2 ?st \<noteq> None" by code_simp
  from for_header_builds_loop [OF h1 h2, where lines = ?lines2 and a = "[]"
      and b = "[]" and c = "[]" and loop_body = "[]" and next_idx = 3 and depth = 1]
  have 2: "\<exists>st' ns. step (process_code_block 1) ?lines2 ?st = Some st' \<and>
      nodes (graph st') =
        [\<lparr>nid = 0, content = ''START'', ntype = Start\<rparr>,
         \<lparr>nid = 1, content = ''void f() {'', ntype = Statement\<rparr>,
         \<lparr>nid = 2, content = ''true'', ntype = LoopCondition\<rparr>] @ ns"
    unfolding fl l2 using k3 k4 k5 k7 by (simp add: k6) fastforce
  from 1 2 show ?thesis by blast
qed

text \<open>
  C7 as stated fails for a header with a line feed in a clause: the header pattern does not
  match the token, the token is skipped, and the tokens of the body are handled as plain
  statements. The graph has no loop condition node.
\<close>

theorem for_line_feed_counterexample:
  "parse_cpp_code 2 (''void f() { for (int i = 0;'' @ [newline] @ '' i < 10; i++) { sum += i; } }'') =
     Some \<lparr>nodes =
             [\<lparr>nid = 0, content = ''START'', ntype = Start\<rparr>,
              \<lparr>nid = 1, content = ''void f() {'', ntype = Statement\<rparr>,
              \<lparr>nid = 2, content = ''sum += i;'', ntype = Statement\<rparr>,
              \<lparr>nid = 3, content = ''END'', ntype = End\<rparr>],
           edges =
             [\<lparr>source = 0, target = 1, condition = None\<rparr>,
              \<lparr>source = 1, target = 2, condition = None\<rparr>,
              \<lparr>source = 2, target = 3, condition = None\<rparr>],
           next_id = 4\<rparr> \<and>
   map_option (\<lambda>g. [n \<leftarrow> nodes g. ntype n = LoopCondition])
     (parse_cpp_code 2 (''void f() { for (int i = 0;'' @ [newline] @ '' i < 10; i++) { sum += i; } }'')) =
     Some []"
  by code_simp

text \<open>
  C3 as stated fails for a header written without white space: \<open>while(x < 5)\<close> is not
  handled as a loop. The token lands in a statement node and the graph has no loop
  condition node.
\<close>

theorem while_paren_counterexample:
  "parse_cpp_code 2 ''void f() { while(x < 5) { x++; } }'' =
     Some \<lparr>nodes =
             [\<lparr>nid = 0, content = ''START'', ntype = Start\<rparr>,
              \<lparr>nid = 1, content = ''void f() {'', ntype = Statement\<rparr>,
              \<lparr>nid = 2, content = ''while(x < 5)'' @ [newline] @ ''x++;'', ntype = Statement\<rparr>,
              \<lparr>nid = 3, content = ''END'', ntype = End\<rparr>],
           edges =
             [\<lparr>source = 0, target = 1, condition = None\<rparr>,
              \<lparr>source = 1, target = 2, condition = None\<rparr>,
              \<lparr>source = 2, target = 3, condition = None\<rparr>],
           next_id = 4\<rparr> \<and>
   map_option (\<lambda>g. [n \<leftarrow> nodes g. ntype n = LoopCondition])
     (parse_cpp_code 2 ''void f() { while(x < 5) { x++; } }'') = Some []"
  by code_simp


section \<open>The do-while loop\<close>

lemma startswith_longer:
  "startswith s p \<Longrightarrow> length p \<le> length q \<Longrightarrow> take (length p) q \<noteq> p \<Longrightarrow> \<not> startswith s q"
  using startswith_take [of s q "length p"] by (auto simp: startswith_def)

lemma step_do:
  assumes "startswith line ''do''" and "strip (lines ! idx st) = line"
  shows "step rec lines st = do_step rec lines st"
proof -
  note sw = assms(1)
  have ne: "line \<noteq> []" "line \<noteq> ''continue;''" "line \<noteq> ''break;''"
    by (rule startswith_neq [OF sw], simp)+
  have "\<not> startswith line ''if''"
    by (rule startswith_other [OF sw]; simp)
  moreover have "\<not> startswith line ''for''" "\<not> startswith line ''while''"
    by (rule startswith_longer [OF sw]; simp)+
  ultimately show ?thesis using ne assms by (simp add: step_def Let_def)
qed

lemma node_edge_graph:
  assumes w: "wf_cfg g0"
  shows "add_edge (with_node g0 tx t) a (new_node g0 tx t) lbl =
         g0\<lparr>nodes := nodes g0 @ [\<lparr>nid = next_id g0, content = tx, ntype = t\<rparr>],
            edges := edges g0 @ [\<lparr>source = nid a, target = next_id g0, condition = lbl\<rparr>],
            next_id := Suc (next_id g0)\<rparr>"
proof -
  have "add_edge (with_node g0 tx t) a (new_node g0 tx t) lbl =
      (with_node g0 tx t)\<lparr>edges := edges (with_node g0 tx t) @
         [\<lparr>source = nid a, target = next_id g0, condition = lbl\<rparr>]\<rparr>"
    using w by (subst add_edge_append) (auto simp: wf_cfg_def)
  then show ?thesis by (simp add: with_node_eq)
qed

text \<open>The tail of a do-while: the condition node, the merge node and the three edges.\<close>

lemma do_tail_graph:
  assumes w: "wf_cfg g'" and l: "nid l < next_id g'" and e: "nid ent < next_id g'"
  shows "add_edge (add_edge (with_node (add_edge (with_node g' ct LoopCondition) l
                  (new_node g' ct LoopCondition) None) mt Merge)
                (new_node g' ct LoopCondition) ent (Some True))
               (new_node g' ct LoopCondition)
               (new_node (add_edge (with_node g' ct LoopCondition) l
                  (new_node g' ct LoopCondition) None) mt Merge)
               (Some False) =
         g'\<lparr>nodes := nodes g' @ [\<lparr>nid = next_id g', content = ct, ntype = LoopCondition\<rparr>,
                                \<lparr>nid = next_id g' + 1, content = mt, ntype = Merge\<rparr>],
            edges := edges g' @ [\<lparr>source = nid l, target = next_id g', condition = None\<rparr>,
                                \<lparr>source = next_id g', target = nid ent, condition = Some True\<rparr>,
                                \<lparr>source = next_id g', target = next_id g' + 1, condition = Some False\<rparr>],
            next_id := next_id g' + 2\<rparr>"
proof -
  let ?cnd = "new_node g' ct LoopCondition"
  let ?g5 = "add_edge (with_node g' ct LoopCondition) l ?cnd None"
  have 5: "?g5 = g'\<lparr>nodes := nodes g' @ [\<lparr>nid = next_id g', content = ct, ntype = LoopCondition\<rparr>],
            edges := edges g' @ [\<lparr>source = nid l, target = next_id g', condition = None\<rparr>],
            next_id := Suc (next_id g')\<rparr>"
    by (rule node_edge_graph [OF w])
  define cnd where "cnd = \<lparr>nid = next_id g', content = ct, ntype = LoopCondition\<rparr>"
  define mrg where "mrg = \<lparr>nid = next_id g' + 1, content = mt, ntype = Merge\<rparr>"
  define G6 where "G6 = g'\<lparr>nodes := nodes g' @ [cnd, mrg],
            edges := edges g' @ [\<lparr>source = nid l, target = next_id g', condition = None\<rparr>],
            next_id := next_id g' + 2\<rparr>"
  have c: "?cnd = cnd" by (simp add: new_node_eq cnd_def)
  have m: "new_node ?g5 mt Merge = mrg" by (simp add: new_node_eq mrg_def 5)
  have 6: "with_node ?g5 mt Merge = G6"
    unfolding 5 by (simp add: with_node_eq G6_def cnd_def mrg_def)
  have "\<forall>x \<in> set (edges G6). source x \<noteq> nid cnd \<or> target x \<noteq> nid ent"
    using w l by (auto simp: G6_def cnd_def wf_cfg_def)
  note 7 = add_edge_append [OF this, of "Some True"]
  define G7 where "G7 = G6\<lparr>edges := edges G6 @
     [\<lparr>source = nid cnd, target = nid ent, condition = Some True\<rparr>]\<rparr>"
  have "\<forall>x \<in> set (edges G7). source x \<noteq> nid cnd \<or> target x \<noteq> nid mrg"
    using w l e by (auto simp: G7_def G6_def cnd_def mrg_def wf_cfg_def)
  note 8 = add_edge_append [OF this, of "Some False"]
  have "add_edge (add_edge (with_node ?g5 mt Merge) ?cnd ent (Some True)) ?cnd
          (new_node ?g5 mt Merge) (Some False) =
        G7\<lparr>edges := edges G7 @ [\<lparr>source = nid cnd, target = nid mrg, condition = Some False\<rparr>]\<rparr>"
    unfolding m 6 unfolding c 7 G7_def [symmetric] 8 ..
  then show ?thesis
    by (simp add: G7_def G6_def cnd_def mrg_def)
qed


text \<open>
  The branch for \<open>do\<close>, for every state: the loop context is appended to the stack after the
  body has been built, and removed again before the next token. On a well-formed graph, when
  building the body returns the graph \<open>g'\<close> and the last node \<open>l\<close> (an empty body returns
  the graph with the entry node, and the entry node), the condition node and the merge node
  are created after \<open>g'\<close>: no edge of \<open>g'\<close>, so no edge added while the body was built, ends
  in either of them, and of the edges of the resulting graph only the edge from \<open>l\<close> to the
  condition node and the false edge from the condition node to the merge node do.
\<close>

theorem do_while_context_after_body:
  fixes st :: block_state and depth :: nat and lines :: "string list" and g' :: cfg
    and cond :: string
  defines "line \<equiv> strip (lines ! idx st)"
  defines "s1 \<equiv> flush_buffer st"
  defines "G \<equiv> graph s1"
  defines "ent \<equiv> \<lparr>nid = next_id G, content = ''do'', ntype = Statement\<rparr>"
  defines "G2 \<equiv> G\<lparr>nodes := nodes G @ [ent],
      edges := edges G @ [\<lparr>source = nid (current_node s1), target = next_id G, condition = None\<rparr>],
      next_id := Suc (next_id G)\<rparr>"
  defines "cnd \<equiv> \<lparr>nid = next_id g', content = (if cond \<noteq> [] then cond else ''x < 5''),
      ntype = LoopCondition\<rparr>"
  defines "mrg \<equiv> \<lparr>nid = next_id g' + 1, content = ''After Do-While Loop (Merge Node)'',
      ntype = Merge\<rparr>"
  assumes wf: "wf_cfg (graph st)" "nid (current_node st) < next_id (graph st)"
  shows
    "startswith line ''do'' \<and>
     extract_do_while_body_and_condition lines (idx st) = (loop_body, cond, next_idx) \<and>
     (if loop_body \<noteq> [] then process_code_block depth G2 ent loop_body else Some (G2, ent)) =
       Some (g', l) \<longrightarrow>
     (\<exists>st' es.
        step (process_code_block depth) lines st = Some st' \<and>
        current_node st' = mrg \<and> idx st' = next_idx \<and> loop_stack st' = loop_stack st \<and>
        nodes (graph st') = nodes g' @ [cnd, mrg] \<and>
        edges g' = edges G @
          [\<lparr>source = nid (current_node s1), target = nid ent, condition = None\<rparr>] @ es \<and>
        edges (graph st') = edges g' @
          [\<lparr>source = nid l, target = nid cnd, condition = None\<rparr>,
           \<lparr>source = nid cnd, target = nid ent, condition = Some True\<rparr>,
           \<lparr>source = nid cnd, target = nid mrg, condition = Some False\<rparr>] \<and>
        (\<forall>x \<in> set (edges g'). target x \<noteq> nid cnd \<and> target x \<noteq> nid mrg) \<and>
        [x \<leftarrow> edges (graph st'). target x = nid cnd \<or> target x = nid mrg] =
          [\<lparr>source = nid l, target = nid cnd, condition = None\<rparr>,
           \<lparr>source = nid cnd, target = nid mrg, condition = Some False\<rparr>])"
proof (intro impI; elim conjE)
  note w = flush_wf [OF wf, folded s1_def G_def]
  have ld: "strip (lines ! idx st) = line" by (simp add: line_def)
  assume sw: "startswith line ''do''"
    and ex: "extract_do_while_body_and_condition lines (idx st) = (loop_body, cond, next_idx)"
    and rc: "(if loop_body \<noteq> [] then process_code_block depth G2 ent loop_body
              else Some (G2, ent)) = Some (g', l)"
  let ?ct = "if cond \<noteq> [] then cond else ''x < 5''"
  let ?mt = "''After Do-While Loop (Merge Node)''"
  have n: "new_node G ''do'' Statement = ent" by (simp add: new_node_eq ent_def)
  have g2: "add_edge (with_node G ''do'' Statement) (current_node s1) ent None = G2"
    using node_edge_graph [OF w(1), of "''do''" Statement "current_node s1" None]
    unfolding n by (simp add: G2_def ent_def)
  have ix: "idx s1 = idx st" "loop_stack s1 = loop_stack st" by (simp_all add: s1_def)
  have w2: "wf_cfg G2" and e2: "nid ent < next_id G2"
    using w by (auto simp: G2_def wf_cfg_def ent_def)
  have facts: "wf_cfg g' \<and> nid l < next_id g' \<and> next_id G2 \<le> next_id g' \<and>
      (\<exists>es. edges g' = edges G2 @ es)"
  proof (cases "loop_body = []")
    case True
    with rc w2 e2 show ?thesis by auto
  next
    case False
    with rc have p: "process_code_block depth G2 ent loop_body = Some (g', l)" by simp
    from process_frame [OF p w2 e2] show ?thesis by blast
  qed
  then obtain es where wg: "wf_cfg g'" and lg: "nid l < next_id g'"
    and ng: "next_id G2 \<le> next_id g'" and eg: "edges g' = edges G2 @ es"
    by blast
  have eg': "nid ent < next_id g'" using e2 ng by simp
  let ?fin = "g'\<lparr>nodes := nodes g' @ [cnd, mrg],
            edges := edges g' @ [\<lparr>source = nid l, target = next_id g', condition = None\<rparr>,
                                \<lparr>source = next_id g', target = nid ent, condition = Some True\<rparr>,
                                \<lparr>source = next_id g', target = next_id g' + 1, condition = Some False\<rparr>],
            next_id := next_id g' + 2\<rparr>"
  let ?st' = "s1\<lparr>graph := ?fin, current_node := mrg, idx := next_idx\<rparr>"
  have m: "new_node (add_edge (with_node g' ?ct LoopCondition) l
                  (new_node g' ?ct LoopCondition) None) ?mt Merge = mrg"
    by (simp add: new_node_eq mrg_def)
  have "do_step (process_code_block depth) lines st =
      Some (s1\<lparr>graph := add_edge (add_edge (with_node (add_edge (with_node g' ?ct LoopCondition) l
                  (new_node g' ?ct LoopCondition) None) ?mt Merge)
                (new_node g' ?ct LoopCondition) ent (Some True))
               (new_node g' ?ct LoopCondition)
               (new_node (add_edge (with_node g' ?ct LoopCondition) l
                  (new_node g' ?ct LoopCondition) None) ?mt Merge)
               (Some False),
             current_node := new_node (add_edge (with_node g' ?ct LoopCondition) l
                  (new_node g' ?ct LoopCondition) None) ?mt Merge,
             idx := next_idx\<rparr>)"
    unfolding do_step_def Let_def add_node_split s1_def [symmetric] G_def [symmetric]
      ix(1) ex prod.case n g2 butlast_snoc
    unfolding rc option.case prod.case
    by simp
  then have s: "step (process_code_block depth) lines st = Some ?st'"
    unfolding step_do [OF sw ld] unfolding do_tail_graph [OF wg lg eg'] unfolding m
    by (simp add: cnd_def mrg_def)
  have t: "\<forall>x \<in> set (edges g'). target x \<noteq> nid cnd \<and> target x \<noteq> nid mrg"
    using wg by (auto simp: wf_cfg_def cnd_def mrg_def)
  then have f0: "[x \<leftarrow> edges g'. target x = next_id g' \<or> target x = Suc (next_id g')] = []"
    by (auto simp: filter_empty_conv cnd_def mrg_def)
  have flt: "[x \<leftarrow> edges (graph ?st'). target x = nid cnd \<or> target x = nid mrg] =
          [\<lparr>source = nid l, target = nid cnd, condition = None\<rparr>,
           \<lparr>source = nid cnd, target = nid mrg, condition = Some False\<rparr>]"
    using eg' by (simp add: f0 cnd_def mrg_def)
  have e1: "edges g' = edges G @
          [\<lparr>source = nid (current_node s1), target = nid ent, condition = None\<rparr>] @ es"
    using eg by (simp add: G2_def ent_def)
  show "\<exists>st' es.
        step (process_code_block depth) lines st = Some st' \<and>
        current_node st' = mrg \<and> idx st' = next_idx \<and> loop_stack st' = loop_stack st \<and>
        nodes (graph st') = nodes g' @ [cnd, mrg] \<and>
        edges g' = edges G @
          [\<lparr>source = nid (current_node s1), target = nid ent, condition = None\<rparr>] @ es \<and>
        edges (graph st') = edges g' @
          [\<lparr>source = nid l, target = nid cnd, condition = None\<rparr>,
           \<lparr>source = nid cnd, target = nid ent, condition = Some True\<rparr>,
           \<lparr>source = nid cnd, target = nid mrg, condition = Some False\<rparr>] \<and>
        (\<forall>x \<in> set (edges g'). target x \<noteq> nid cnd \<and> target x \<noteq> nid mrg) \<and>
        [x \<leftarrow> edges (graph st'). target x = nid cnd \<or> target x = nid mrg] =
          [\<lparr>source = nid l, target = nid cnd, condition = None\<rparr>,
           \<lparr>source = nid cnd, target = nid mrg, condition = Some False\<rparr>]"
    apply (rule exI [of _ ?st'], rule exI [of _ es])
    using s e1 t flt by (simp add: ix cnd_def mrg_def)
qed

theorem do_while_context_after_body_witness:
  "\<exists>st'. step (process_code_block 1) [''do'', ''{'', ''break;'', ''}'', ''while (b < 2)'', '';'']
       \<lparr>graph = \<lparr>nodes = [\<lparr>nid = 0, content = ''START'', ntype = Start\<rparr>,
                           \<lparr>nid = 1, content = ''void f() {'', ntype = Statement\<rparr>],
                  edges = [\<lparr>source = 0, target = 1, condition = None\<rparr>], next_id = 2\<rparr>,
        current_node = \<lparr>nid = 1, content = ''void f() {'', ntype = Statement\<rparr>,
        idx = 0, statement_buffer = [], loop_stack = []\<rparr> = Some st' \<and>
      current_node st' =
        \<lparr>nid = 4, content = ''After Do-While Loop (Merge Node)'', ntype = Merge\<rparr> \<and>
      idx st' = 5 \<and> loop_stack st' = [] \<and>
      edges (graph st') =
        [\<lparr>source = 0, target = 1, condition = None\<rparr>,
         \<lparr>source = 1, target = 2, condition = None\<rparr>,
         \<lparr>source = 2, target = 3, condition = None\<rparr>,
         \<lparr>source = 3, target = 2, condition = Some True\<rparr>,
         \<lparr>source = 3, target = 4, condition = Some False\<rparr>] \<and>
      [x \<leftarrow> edges (graph st'). target x = 3 \<or> target x = 4] =
        [\<lparr>source = 2, target = 3, condition = None\<rparr>,
         \<lparr>source = 3, target = 4, condition = Some False\<rparr>]"
proof -
  let ?lines = "[''do'', ''{'', ''break;'', ''}'', ''while (b < 2)'', '';'']"
  let ?g = "\<lparr>nodes = [\<lparr>nid = 0, content = ''START'', ntype = Start\<rparr>,
                         \<lparr>nid = 1, content = ''void f() {'', ntype = Statement\<rparr>],
                edges = [\<lparr>source = 0, target = 1, condition = None\<rparr>], next_id = 2\<rparr>"
  let ?st = "\<lparr>graph = ?g,
      current_node = \<lparr>nid = 1, content = ''void f() {'', ntype = Statement\<rparr>,
      idx = 0, statement_buffer = [], loop_stack = []\<rparr>"
  let ?g' = "\<lparr>nodes = [\<lparr>nid = 0, content = ''START'', ntype = Start\<rparr>,
               \<lparr>nid = 1, content = ''void f() {'', ntype = Statement\<rparr>,
               \<lparr>nid = 2, content = ''do'', ntype = Statement\<rparr>],
       edges = [\<lparr>source = 0, target = 1, condition = None\<rparr>,
                \<lparr>source = 1, target = 2, condition = None\<rparr>], next_id = 3\<rparr>"
  have h1: "wf_cfg (graph ?st)" by (simp add: wf_cfg_def)
  have h2: "nid (current_node ?st) < next_id (graph ?st)" by simp
  have fl: "flush_buffer ?st = ?st" by (simp add: flush_buffer_def)
  have l: "strip (?lines ! idx ?st) = ''do''" by code_simp
  have h3: "startswith ''do'' ''do''" by code_simp
  have h4: "extract_do_while_body_and_condition ?lines 0 = (''break;'', [], 5)" by code_simp
  have rc: "process_code_block 1 ?g' \<lparr>nid = 2, content = ''do'', ntype = Statement\<rparr> ''break;'' =
     Some (?g', \<lparr>nid = 2, content = ''do'', ntype = Statement\<rparr>)"
    by code_simp
  from do_while_context_after_body [OF h1 h2, where lines = ?lines and loop_body = "''break;''"
      and cond = "[]" and next_idx = 5 and depth = 1 and g' = ?g'
      and l = "\<lparr>nid = 2, content = ''do'', ntype = Statement\<rparr>"]
  show ?thesis
    unfolding fl l using h3 h4 rc by simp fastforce
qed

text \<open>
  C5 (the code at the failing input). A \<open>break;\<close> in the body of a do-while adds no edge to
  the condition node (6) or the merge node (7) of that do-while, as C5 says. C5 also says that
  it resolves against an enclosing loop, and this the code does not do: the body of the
  do-while is built by a nested invocation of \<open>process_code_block\<close>, which starts with an empty
  loop stack of its own. In the text below the do-while stands in a \<open>while\<close>, and the graph
  has no edge from the body of the do-while (node 5) to the merge node of the \<open>while\<close>
  (node 3).
\<close>

theorem break_in_do_in_while_no_edge:
  "parse_cpp_code 3 ''void f() { while (a < 1) { do { break; } while (b < 2); } }'' =
     Some \<lparr>nodes =
     [\<lparr>nid = 0, content = ''START'', ntype = Start\<rparr>,
      \<lparr>nid = 1, content = ''void f() {'', ntype = Statement\<rparr>,
      \<lparr>nid = 2, content = ''a < 1'', ntype = LoopCondition\<rparr>,
      \<lparr>nid = 3, content = ''After Loop (Merge Node)'', ntype = Merge\<rparr>,
      \<lparr>nid = 4, content = ''While Loop Body Entry'', ntype = Statement\<rparr>,
      \<lparr>nid = 5, content = ''do'', ntype = Statement\<rparr>,
      \<lparr>nid = 6, content = ''x < 5'', ntype = LoopCondition\<rparr>,
      \<lparr>nid = 7, content = ''After Do-While Loop (Merge Node)'', ntype = Merge\<rparr>,
      \<lparr>nid = 8, content = '';'', ntype = Statement\<rparr>,
      \<lparr>nid = 9, content = ''END'', ntype = End\<rparr>],
     edges =
       [\<lparr>source = 0, target = 1, condition = None\<rparr>,
        \<lparr>source = 1, target = 2, condition = None\<rparr>,
        \<lparr>source = 2, target = 3, condition = Some False\<rparr>,
        \<lparr>source = 2, target = 4, condition = Some True\<rparr>,
        \<lparr>source = 4, target = 5, condition = None\<rparr>,
        \<lparr>source = 5, target = 6, condition = None\<rparr>,
        \<lparr>source = 6, target = 5, condition = Some True\<rparr>,
        \<lparr>source = 6, target = 7, condition = Some False\<rparr>,
        \<lparr>source = 7, target = 8, condition = None\<rparr>,
        \<lparr>source = 8, target = 2, condition = None\<rparr>,
        \<lparr>source = 3, target = 9, condition = None\<rparr>],
     next_id = 10\<rparr> \<and>
   map_option (\<lambda>g. [e \<leftarrow> edges g. source e = 5 \<and> target e = 3])
     (parse_cpp_code 3 ''void f() { while (a < 1) { do { break; } while (b < 2); } }'') = Some []"
  by code_simp


section \<open>Break and continue\<close>







text \<open>
  C10. A \<open>break;\<close> or \<open>continue;\<close> token processed while the loop stack is empty only
  moves the index to the next token: the graph (nodes and edges), the current node, the
  statement buffer and the stack of the resulting state are those of the state before.
\<close>

theorem jump_empty_stack_no_effect:
  "strip (lines ! idx st) = ''break;'' \<or> strip (lines ! idx st) = ''continue;'' \<Longrightarrow>
   loop_stack st = [] \<Longrightarrow>
   step rec lines st = Some (st\<lparr>idx := idx st + 1\<rparr>)"
  by (auto simp: step_def jump_step_def Let_def)

theorem jump_empty_stack_no_effect_witness:
  "step (process_code_block 0) [''break;'', ''x = 1;'']
       \<lparr>graph = \<lparr>nodes = [\<lparr>nid = 0, content = ''START'', ntype = Start\<rparr>,
                           \<lparr>nid = 1, content = ''void f() {'', ntype = Statement\<rparr>],
                  edges = [\<lparr>source = 0, target = 1, condition = None\<rparr>], next_id = 2\<rparr>,
        current_node = \<lparr>nid = 1, content = ''void f() {'', ntype = Statement\<rparr>,
        idx = 0, statement_buffer = [], loop_stack = []\<rparr> =
   Some \<lparr>graph = \<lparr>nodes = [\<lparr>nid = 0, content = ''START'', ntype = Start\<rparr>,
                           \<lparr>nid = 1, content = ''void f() {'', ntype = Statement\<rparr>],
                  edges = [\<lparr>source = 0, target = 1, condition = None\<rparr>], next_id = 2\<rparr>,
        current_node = \<lparr>nid = 1, content = ''void f() {'', ntype = Statement\<rparr>,
        idx = 1, statement_buffer = [], loop_stack = []\<rparr>"
proof -
  let ?lines = "[''break;'', ''x = 1;'']"
  let ?st = "\<lparr>graph = \<lparr>nodes = [\<lparr>nid = 0, content = ''START'', ntype = Start\<rparr>,
                           \<lparr>nid = 1, content = ''void f() {'', ntype = Statement\<rparr>],
                  edges = [\<lparr>source = 0, target = 1, condition = None\<rparr>], next_id = 2\<rparr>,
        current_node = \<lparr>nid = 1, content = ''void f() {'', ntype = Statement\<rparr>,
        idx = 0, statement_buffer = [], loop_stack = []\<rparr>"
  have h1: "strip (?lines ! idx ?st) = ''break;'' \<or> strip (?lines ! idx ?st) = ''continue;''"
    by code_simp
  have h2: "loop_stack ?st = []" by simp
  from jump_empty_stack_no_effect [OF h1 h2, of "process_code_block 0"]
  show ?thesis by simp
qed

text \<open>
  C1 (the code at the failing input). Every invocation of \<open>process_code_block\<close> creates
  its own empty loop stack, and the body of a loop is built by a nested invocation, so a
  \<open>break;\<close> in the body of a \<open>while\<close> finds the stack empty: the graph of the text below
  has no edge from the body entry (node 4) to the merge node of the loop (node 3).
\<close>

theorem break_in_while_no_edge:
  "parse_cpp_code 2 ''void f() { while (x < 5) { break; } }'' =
     Some \<lparr>nodes =
             [\<lparr>nid = 0, content = ''START'', ntype = Start\<rparr>,
              \<lparr>nid = 1, content = ''void f() {'', ntype = Statement\<rparr>,
              \<lparr>nid = 2, content = ''x < 5'', ntype = LoopCondition\<rparr>,
              \<lparr>nid = 3, content = ''After Loop (Merge Node)'', ntype = Merge\<rparr>,
              \<lparr>nid = 4, content = ''While Loop Body Entry'', ntype = Statement\<rparr>,
              \<lparr>nid = 5, content = ''END'', ntype = End\<rparr>],
           edges =
             [\<lparr>source = 0, target = 1, condition = None\<rparr>,
              \<lparr>source = 1, target = 2, condition = None\<rparr>,
              \<lparr>source = 2, target = 3, condition = Some False\<rparr>,
              \<lparr>source = 2, target = 4, condition = Some True\<rparr>,
              \<lparr>source = 4, target = 2, condition = None\<rparr>,
              \<lparr>source = 3, target = 5, condition = None\<rparr>],
           next_id = 6\<rparr> \<and>
   map_option (\<lambda>g. [e \<leftarrow> edges g. source e = 4 \<and> target e = 3])
     (parse_cpp_code 2 ''void f() { while (x < 5) { break; } }'') = Some []"
  by code_simp


section \<open>Keywords in the tokenizer\<close>





















section \<open>The graph of an if-else\<close>

text \<open>
  C6. For a function whose body is \<open>if (x > 5) { x = x + 1; } else { x = x - 1; }\<close>: the
  condition node (2) has one true edge, to the entry node of the if branch (4), and one false
  edge, to the entry node of the else branch (6); the graph has one merge node (3), and its
  incoming edges are two, from the last node of each branch (5 and 7).
\<close>

theorem if_else_shape:
  "parse_cpp_code 2 ''int main() { if (x > 5) { x = x + 1; } else { x = x - 1; } }'' =
     Some \<lparr>nodes =
             [\<lparr>nid = 0, content = ''START'', ntype = Start\<rparr>,
              \<lparr>nid = 1, content = ''int main() {'', ntype = Statement\<rparr>,
              \<lparr>nid = 2, content = ''x > 5'', ntype = Condition\<rparr>,
              \<lparr>nid = 3, content = ''After If-Else (Merge Node)'', ntype = Merge\<rparr>,
              \<lparr>nid = 4, content = ''If Branch Entry'', ntype = Statement\<rparr>,
              \<lparr>nid = 5, content = ''x = x + 1;'', ntype = Statement\<rparr>,
              \<lparr>nid = 6, content = ''Else Branch Entry'', ntype = Statement\<rparr>,
              \<lparr>nid = 7, content = ''x = x - 1;'', ntype = Statement\<rparr>,
              \<lparr>nid = 8, content = ''END'', ntype = End\<rparr>],
           edges =
             [\<lparr>source = 0, target = 1, condition = None\<rparr>,
              \<lparr>source = 1, target = 2, condition = None\<rparr>,
              \<lparr>source = 2, target = 4, condition = Some True\<rparr>,
              \<lparr>source = 4, target = 5, condition = None\<rparr>,
              \<lparr>source = 5, target = 3, condition = None\<rparr>,
              \<lparr>source = 2, target = 6, condition = Some False\<rparr>,
              \<lparr>source = 6, target = 7, condition = None\<rparr>,
              \<lparr>source = 7, target = 3, condition = None\<rparr>,
              \<lparr>source = 3, target = 8, condition = None\<rparr>],
           next_id = 9\<rparr> \<and>
   map_option (\<lambda>g. [e \<leftarrow> edges g. source e = 2 \<and> condition e = Some True])
     (parse_cpp_code 2 ''int main() { if (x > 5) { x = x + 1; } else { x = x - 1; } }'') =
     Some [\<lparr>source = 2, target = 4, condition = Some True\<rparr>] \<and>
   map_option (\<lambda>g. [e \<leftarrow> edges g. source e = 2 \<and> condition e = Some False])
     (parse_cpp_code 2 ''int main() { if (x > 5) { x = x + 1; } else { x = x - 1; } }'') =
     Some [\<lparr>source = 2, target = 6, condition = Some False\<rparr>] \<and>
   map_option (\<lambda>g. [n \<leftarrow> nodes g. ntype n = Merge])
     (parse_cpp_code 2 ''int main() { if (x > 5) { x = x + 1; } else { x = x - 1; } }'') =
     Some [\<lparr>nid = 3, content = ''After If-Else (Merge Node)'', ntype = Merge\<rparr>] \<and>
   map_option (\<lambda>g. [e \<leftarrow> edges g. target e = 3])
     (parse_cpp_code 2 ''int main() { if (x > 5) { x = x + 1; } else { x = x - 1; } }'') =
     Some [\<lparr>source = 5, target = 3, condition = None\<rparr>,
           \<lparr>source = 7, target = 3, condition = None\<rparr>]"
  by code_simp

end
